theory Spec2Isabelle
  imports Complex_Main "HOL-Library.AList"
begin

section \<open>Rate limiter (src/src/rateLimiter.ts)\<close>

text \<open>
  Timestamps (\<open>Date.now()\<close>, milliseconds) and durations are integers and are modelled
  as \<open>int\<close>; the clock is an explicit argument \<open>now\<close> of every operation that reads it.
  The counters \<open>warnings\<close> and \<open>totalRequests\<close> start at 0 and are only incremented or
  reset to 0, so they are \<open>nat\<close>.  The optional field \<open>blockedUntil\<close> is an
  \<open>int option\<close>; JavaScript truthiness of an optional number (\<open>undefined\<close> and \<open>0\<close> are
  falsy) is \<open>truthy\<close>.  The optional configuration flags are \<open>bool\<close> (absent is falsy).
\<close>

record RateLimitConfig =
  windowMs :: int
  max_requests :: int
  skipSuccessfulRequests :: bool
  skipFailedRequests :: bool

record ClientData =
  requests :: "int list"
  blocked :: bool
  blockedUntil :: "int option"
  warnings :: nat
  totalRequests :: nat
  suspiciousActivity :: bool

record CheckResult =
  allowed :: bool
  remaining :: int
  retryAfter :: "int option"

type_synonym clients = "string \<rightharpoonup> ClientData"

definition truthy :: "int option \<Rightarrow> bool" where
  "truthy v = (case v of None \<Rightarrow> False | Some n \<Rightarrow> n \<noteq> 0)"

text \<open>The constructor: \<open>config.windowMs || 60000\<close> and \<open>config.max || 100\<close>.\<close>

definition mkConfig :: "RateLimitConfig \<Rightarrow> RateLimitConfig" where
  "mkConfig config =
     \<lparr> windowMs = (if windowMs config = 0 then 60000 else windowMs config),
       max_requests = (if max_requests config = 0 then 100 else max_requests config),
       skipSuccessfulRequests = skipSuccessfulRequests config,
       skipFailedRequests = skipFailedRequests config \<rparr>"

definition newClient :: ClientData where
  "newClient = \<lparr> requests = [], blocked = False, blockedUntil = None, warnings = 0,
                 totalRequests = 0, suspiciousActivity = False \<rparr>"

text \<open>\<open>Math.ceil(x / 1000)\<close> on an integer \<open>x\<close>.\<close>

definition ceil_seconds :: "int \<Rightarrow> int" where
  "ceil_seconds x = - ((- x) div 1000)"

text \<open>
  \<open>getBlockDuration\<close>: base 60000 ms, \<open>multiplier = min(warnings, 10)\<close>.
\<close>

definition getBlockDuration :: "ClientData \<Rightarrow> int" where
  "getBlockDuration client =
     (let baseBlock = 60000;
          multiplier = min (warnings client) 10
      in if suspiciousActivity client
         then baseBlock * int multiplier * 2
         else baseBlock * 2 ^ (min multiplier 5))"

text \<open>
  \<open>detectSuspiciousActivity\<close>.  The source compares an integer length with \<open>max * 0.8\<close>
  and \<open>max * 0.9\<close>; both sides are scaled by 10 here, which gives the comparison over
  the rationals.
\<close>

definition detectSuspiciousActivity :: "RateLimitConfig \<Rightarrow> ClientData \<Rightarrow> int \<Rightarrow> ClientData" where
  "detectSuspiciousActivity config client now =
     (let recentRequests = filter (\<lambda>time. time > now - 10000) (requests client);
          c1 = (if 10 * int (length recentRequests) > 8 * max_requests config
                then client\<lparr>suspiciousActivity := True\<rparr> else client)
      in if 10 * int (length (requests c1)) > 9 * max_requests config
         then c1\<lparr>suspiciousActivity := True\<rparr> else c1)"

text \<open>
  \<open>checkLimit(clientId, isSuccess)\<close> at clock value \<open>now\<close>.  The client record is
  created and stored first when the id is unknown; every later mutation of the record is
  a mutation of the stored object, so each branch returns the map with the final record.
\<close>

definition checkLimit ::
  "RateLimitConfig \<Rightarrow> string \<Rightarrow> bool \<Rightarrow> int \<Rightarrow> clients \<Rightarrow> CheckResult \<times> clients" where
  "checkLimit config clientId isSuccess now cs =
     (let client = (case cs clientId of None \<Rightarrow> newClient | Some c \<Rightarrow> c) in
      if blocked client \<and> truthy (blockedUntil client) \<and> now < the (blockedUntil client)
      then (\<lparr> allowed = False, remaining = 0,
               retryAfter = Some (ceil_seconds (the (blockedUntil client) - now)) \<rparr>,
            cs(clientId \<mapsto> client))
      else
        let client = (if blocked client \<and> truthy (blockedUntil client)
                         \<and> now \<ge> the (blockedUntil client)
                      then client\<lparr>blocked := False, blockedUntil := None, requests := []\<rparr>
                      else client) in
        if (isSuccess \<and> skipSuccessfulRequests config)
           \<or> (\<not> isSuccess \<and> skipFailedRequests config)
        then (\<lparr> allowed = True, remaining = max_requests config, retryAfter = None \<rparr>,
              cs(clientId \<mapsto> client))
        else
          let windowStart = now - windowMs config;
              client = client\<lparr>requests := filter (\<lambda>time. time > windowStart) (requests client)\<rparr>;
              client = client\<lparr>totalRequests := totalRequests client + 1\<rparr>;
              client = detectSuspiciousActivity config client now
          in if int (length (requests client)) \<ge> max_requests config
             then
               let client = client\<lparr>blocked := True,
                                   blockedUntil := Some (now + getBlockDuration client)\<rparr>;
                   client = client\<lparr>warnings := warnings client + 1\<rparr>
               in (\<lparr> allowed = False, remaining = 0,
                      retryAfter = Some (ceil_seconds (getBlockDuration client)) \<rparr>,
                   cs(clientId \<mapsto> client))
             else
               let client = client\<lparr>requests := requests client @ [now]\<rparr>
               in (\<lparr> allowed = True,
                      remaining = max_requests config - int (length (requests client)),
                      retryAfter = None \<rparr>,
                   cs(clientId \<mapsto> client)))"

definition isBlocked :: "string \<Rightarrow> int \<Rightarrow> clients \<Rightarrow> bool" where
  "isBlocked clientId now cs =
     (case cs clientId of
        None \<Rightarrow> False
      | Some client \<Rightarrow>
          blocked client \<and> truthy (blockedUntil client) \<and> now < the (blockedUntil client))"

text \<open>\<open>getClientStats\<close>: the client's entry, or \<open>null\<close> (\<open>None\<close>).\<close>

definition getClientStats :: "string \<Rightarrow> clients \<Rightarrow> ClientData option" where
  "getClientStats clientId cs = cs clientId"

text \<open>
  \<open>blacklistClient(clientId, duration = 24 * 60 * 60 * 1000)\<close>: the default applies when
  the argument is absent (\<open>None\<close>).
\<close>

definition blacklistDuration :: "int option \<Rightarrow> int" where
  "blacklistDuration duration_arg =
     (case duration_arg of None \<Rightarrow> 24 * 60 * 60 * 1000 | Some d \<Rightarrow> d)"

definition blacklistClient :: "string \<Rightarrow> int option \<Rightarrow> int \<Rightarrow> clients \<Rightarrow> clients" where
  "blacklistClient clientId duration_arg now cs =
     (let duration = blacklistDuration duration_arg;
          client = (case cs clientId of None \<Rightarrow> newClient | Some c \<Rightarrow> c);
          client = client\<lparr>blocked := True, blockedUntil := Some (now + duration),
                           suspiciousActivity := True\<rparr>
      in cs(clientId \<mapsto> client))"

definition whitelistClient :: "string \<Rightarrow> clients \<Rightarrow> clients" where
  "whitelistClient clientId cs =
     (case cs clientId of
        None \<Rightarrow> cs
      | Some client \<Rightarrow>
          cs(clientId \<mapsto> client\<lparr>blocked := False, blockedUntil := None, requests := [],
                                  warnings := 0, suspiciousActivity := False\<rparr>))"

text \<open>
  Consecutive \<open>checkLimit\<close> calls of one client; each call is a pair of the
  \<open>isSuccess\<close> argument and the clock value at the call.
\<close>

fun checkLimits ::
  "RateLimitConfig \<Rightarrow> string \<Rightarrow> (bool \<times> int) list \<Rightarrow> clients \<Rightarrow> CheckResult list \<times> clients" where
  "checkLimits config clientId [] cs = ([], cs)"
| "checkLimits config clientId (call # calls) cs =
     (let (r, cs1) = checkLimit config clientId (fst call) (snd call) cs;
          (rs, cs2) = checkLimits config clientId calls cs1
      in (r # rs, cs2))"

definition denied :: "int \<Rightarrow> CheckResult" where
  "denied r = \<lparr> allowed = False, remaining = 0, retryAfter = Some r \<rparr>"

definition admitted :: "int \<Rightarrow> CheckResult" where
  "admitted n = \<lparr> allowed = True, remaining = n, retryAfter = None \<rparr>"

section \<open>Load-balancing strategies (src/src/loadBalancer.ts)\<close>

text \<open>
  \<open>ServerNode\<close>.  The field \<open>id\<close> is called \<open>node_id\<close>.  Connection counts, capacities
  and weights are integers (\<open>int\<close>, so that a negative value is representable); the
  measurements \<open>cpuUsage\<close>, \<open>memoryUsage\<close> and \<open>responseTime\<close> are rationals, with exact
  arithmetic in place of the floating-point arithmetic of the source.
\<close>

record ServerNode =
  node_id :: string
  host :: string
  port :: int
  isHealthy :: bool
  lastHealthCheck :: int
  activeConnections :: int
  maxConnections :: int
  cpuUsage :: rat
  memoryUsage :: rat
  responseTime :: rat
  weight :: int

text \<open>The filter predicate that opens every strategy's \<open>selectServer\<close>.\<close>

definition selectable :: "ServerNode \<Rightarrow> bool" where
  "selectable node = (isHealthy node \<and> activeConnections node < maxConnections node)"

record WeightedQueueEntry =
  server :: ServerNode
  remainingWeight :: int

text \<open>
  The four strategy classes with their private state: the round-robin index and the
  weighted queue.
\<close>

datatype LoadBalancingStrategy =
    RoundRobinStrategy nat
  | LeastConnectionsStrategy
  | WeightedRoundRobinStrategy "WeightedQueueEntry list"
  | PerformanceBasedStrategy

definition rr_selectServer :: "nat \<Rightarrow> ServerNode list \<Rightarrow> ServerNode option \<times> nat" where
  "rr_selectServer currentIndex nodes =
     (let healthyNodes = filter selectable nodes
      in if length healthyNodes = 0 then (None, currentIndex)
         else (Some (healthyNodes ! (currentIndex mod length healthyNodes)),
               (currentIndex + 1) mod length healthyNodes))"

text \<open>\<open>reduce\<close> without an initial value starts from the first element.\<close>

definition lc_selectServer :: "ServerNode list \<Rightarrow> ServerNode option" where
  "lc_selectServer nodes =
     (case filter selectable nodes of
        [] \<Rightarrow> None
      | first # rest \<Rightarrow>
          Some (foldl (\<lambda>m node. if activeConnections node < activeConnections m then node else m)
                      first rest))"

text \<open>
  \<open>updateWeightedQueue\<close>: the loop body either pushes a new entry or replaces the server
  of the first entry with the node's id (\<open>find\<close>).  An entry holds the node as it was at
  the entry's last refresh; the id of a node object never changes.
\<close>

definition entry_id :: "WeightedQueueEntry \<Rightarrow> string" where
  "entry_id entry = node_id (server entry)"

fun refresh_entry :: "ServerNode \<Rightarrow> WeightedQueueEntry list \<Rightarrow> WeightedQueueEntry list" where
  "refresh_entry node [] = []"
| "refresh_entry node (entry # q) =
     (if entry_id entry = node_id node then entry\<lparr>server := node\<rparr> # q
      else entry # refresh_entry node q)"

definition add_or_refresh :: "WeightedQueueEntry list \<Rightarrow> ServerNode \<Rightarrow> WeightedQueueEntry list" where
  "add_or_refresh q node =
     (if \<not> list_ex (\<lambda>entry. entry_id entry = node_id node) q
      then q @ [\<lparr> server = node, remainingWeight = weight node \<rparr>]
      else refresh_entry node q)"

definition updateWeightedQueue :: "ServerNode list \<Rightarrow> WeightedQueueEntry list \<Rightarrow> WeightedQueueEntry list" where
  "updateWeightedQueue nodes q =
     foldl add_or_refresh
       (filter (\<lambda>entry. list_ex (\<lambda>node. node_id node = entry_id entry \<and> isHealthy node
                                          \<and> activeConnections node < maxConnections node) nodes) q)
       nodes"

text \<open>
  \<open>find(entry => entry.remainingWeight > 0)\<close> followed by \<open>remainingWeight--\<close> on the entry
  found: the first entry with positive remaining weight is decremented in place and its
  server returned; \<open>None\<close> when \<open>find\<close> returns \<open>undefined\<close>.
\<close>

fun take_first_positive ::
  "WeightedQueueEntry list \<Rightarrow> (ServerNode \<times> WeightedQueueEntry list) option" where
  "take_first_positive [] = None"
| "take_first_positive (entry # q) =
     (if remainingWeight entry > 0
      then Some (server entry, entry\<lparr>remainingWeight := remainingWeight entry - 1\<rparr> # q)
      else (case take_first_positive q of
              None \<Rightarrow> None
            | Some (node, q') \<Rightarrow> Some (node, entry # q')))"

definition reset_weights :: "WeightedQueueEntry list \<Rightarrow> WeightedQueueEntry list" where
  "reset_weights q = map (\<lambda>entry. entry\<lparr>remainingWeight := weight (server entry)\<rparr>) q"

definition wrr_selectServer ::
  "WeightedQueueEntry list \<Rightarrow> ServerNode list \<Rightarrow> ServerNode option \<times> WeightedQueueEntry list" where
  "wrr_selectServer weightedQueue nodes =
     (let healthyNodes = filter selectable nodes
      in if length healthyNodes = 0 then (None, weightedQueue)
         else
           let q1 = updateWeightedQueue healthyNodes weightedQueue
           in if length q1 = 0 then (None, q1)
              else
                (case take_first_positive q1 of
                   Some (node, q2) \<Rightarrow> (Some node, q2)
                 | None \<Rightarrow>
                     (case reset_weights q1 of
                        [] \<Rightarrow> (None, [])
                      | first # rest \<Rightarrow>
                          (Some (server first),
                           first\<lparr>remainingWeight := remainingWeight first - 1\<rparr> # rest))))"

text \<open>
  \<open>calculatePerformanceScore\<close> (lower is better).  The sort with the comparator
  \<open>a.score - b.score\<close> is the stable ascending sort by score.
\<close>

definition calculatePerformanceScore :: "ServerNode \<Rightarrow> rat" where
  "calculatePerformanceScore node =
     (let connectionRatio = of_int (activeConnections node) / of_int (maxConnections node);
          cpuWeight = 3 / 10;
          memoryWeight = 3 / 10;
          connectionWeight = 2 / 10;
          responseTimeWeight = 2 / 10;
          normalizedResponseTime = min (responseTime node / 1000) 1
      in cpuUsage node * cpuWeight + memoryUsage node * memoryWeight
         + connectionRatio * 100 * connectionWeight
         + normalizedResponseTime * 100 * responseTimeWeight)"

definition pb_selectServer :: "ServerNode list \<Rightarrow> ServerNode option" where
  "pb_selectServer nodes =
     (let availableNodes = filter selectable nodes
      in if length availableNodes = 0 then None
         else Some (hd (sort_key calculatePerformanceScore availableNodes)))"

text \<open>\<open>strategy.selectServer(nodes)\<close>: the result and the strategy's state after the call.\<close>

fun selectServer ::
  "LoadBalancingStrategy \<Rightarrow> ServerNode list \<Rightarrow> ServerNode option \<times> LoadBalancingStrategy" where
  "selectServer (RoundRobinStrategy currentIndex) nodes =
     (let (r, i) = rr_selectServer currentIndex nodes in (r, RoundRobinStrategy i))"
| "selectServer LeastConnectionsStrategy nodes = (lc_selectServer nodes, LeastConnectionsStrategy)"
| "selectServer (WeightedRoundRobinStrategy weightedQueue) nodes =
     (let (r, q) = wrr_selectServer weightedQueue nodes in (r, WeightedRoundRobinStrategy q))"
| "selectServer PerformanceBasedStrategy nodes = (pb_selectServer nodes, PerformanceBasedStrategy)"

text \<open>A freshly constructed strategy: index 0, empty queue.\<close>

fun fresh :: "LoadBalancingStrategy \<Rightarrow> bool" where
  "fresh (RoundRobinStrategy currentIndex) = (currentIndex = 0)"
| "fresh (WeightedRoundRobinStrategy weightedQueue) = (weightedQueue = [])"
| "fresh LeastConnectionsStrategy = True"
| "fresh PerformanceBasedStrategy = True"

text \<open>Consecutive \<open>selectServer\<close> calls on one strategy object, one node list per call.\<close>

fun selectServers :: "LoadBalancingStrategy \<Rightarrow> ServerNode list list \<Rightarrow> ServerNode option list" where
  "selectServers st [] = []"
| "selectServers st (nodes # rest) =
     (let (r, st') = selectServer st nodes in r # selectServers st' rest)"

text \<open>
  The weighted queue holds at most one entry per node id: an entry is pushed only when no
  entry has the node's id.
\<close>

fun strategy_inv :: "LoadBalancingStrategy \<Rightarrow> bool" where
  "strategy_inv (WeightedRoundRobinStrategy weightedQueue) = distinct (map entry_id weightedQueue)"
| "strategy_inv _ = True"

subsection \<open>The weighted cycle\<close>

text \<open>
  The number of calls in one full cycle, the order in which a full cycle hands out the
  nodes (each node \<open>weight\<close> times, in queue order), and the queue after \<open>c\<close>
  selections of a cycle: exhausted entries first, the entry in use next, untouched
  entries last.
\<close>

definition total_weight :: "ServerNode list \<Rightarrow> nat" where
  "total_weight nodes = nat (sum_list (map weight nodes))"

definition positive_weights :: "ServerNode list \<Rightarrow> bool" where
  "positive_weights nodes = (\<forall>node \<in> set nodes. 1 \<le> weight node)"

definition new_entry :: "ServerNode \<Rightarrow> WeightedQueueEntry" where
  "new_entry node = \<lparr> server = node, remainingWeight = weight node \<rparr>"

fun weighted_cycle :: "ServerNode list \<Rightarrow> ServerNode list" where
  "weighted_cycle [] = []"
| "weighted_cycle (node # nodes) = replicate (nat (weight node)) node @ weighted_cycle nodes"

fun consumed :: "nat \<Rightarrow> ServerNode list \<Rightarrow> WeightedQueueEntry list" where
  "consumed c [] = []"
| "consumed c (node # nodes) =
     (if c < nat (weight node)
      then \<lparr> server = node, remainingWeight = weight node - int c \<rparr> # map new_entry nodes
      else \<lparr> server = node, remainingWeight = 0 \<rparr> # consumed (c - nat (weight node)) nodes)"

text \<open>
  A node list as the registry hands it to the strategy (distinct ids) in which every node
  is healthy and below capacity and has a weight of at least 1.
\<close>

definition static_nodes :: "ServerNode list \<Rightarrow> bool" where
  "static_nodes nodes =
     (distinct (map node_id nodes) \<and> (\<forall>node \<in> set nodes. selectable node)
      \<and> positive_weights nodes)"

text \<open>
  The results of the calls number \<open>k\<close> to \<open>k + total_weight nodes - 1\<close> (counted from 0)
  made on a freshly constructed weighted round-robin strategy with the same node list at
  every call.
\<close>

definition wrr_window :: "ServerNode list \<Rightarrow> nat \<Rightarrow> ServerNode option list" where
  "wrr_window nodes k =
     take (total_weight nodes)
       (drop k (selectServers (WeightedRoundRobinStrategy [])
                  (replicate (k + total_weight nodes) nodes)))"

section \<open>Load balancer (src/src/loadBalancer.ts)\<close>

text \<open>
  The registry \<open>nodes\<close> is a JavaScript \<open>Map\<close>, which iterates in insertion order:
  an association list with distinct keys, read with \<open>map_of\<close>, written with
  \<open>AList.update\<close> (an existing key keeps its position, a new key goes to the end) and
  \<open>AList.delete\<close>.  A mutation of a registered node object is an update of its entry.
  The sticky-session map and the circuit-breaker table are only read by key and are maps.
  Every \<open>emit\<close> appends to the log \<open>emitted\<close>.
\<close>

datatype BreakerState = Closed | Open | HalfOpen

record CircuitBreaker =
  failures :: nat
  lastFailureTime :: int
  state :: BreakerState

datatype Event =
    ServerAdded ServerNode
  | ServerRemoved ServerNode
  | ServerStatsUpdated ServerNode
  | ServerSelected ServerNode
  | NoServerAvailable
  | ConnectionIncremented ServerNode
  | ConnectionDecremented ServerNode
  | StrategyChanged LoadBalancingStrategy
  | ServerHealthy ServerNode
  | ServerUnhealthy ServerNode
  | HealthCheckCompleted ServerNode
  | HealthCheckFailed ServerNode
  | CircuitBreakerOpened string
  | CircuitBreakerClosed string

record LoadBalancer =
  nodes :: "(string \<times> ServerNode) list"
  strategy :: LoadBalancingStrategy
  stickySessionMap :: "string \<rightharpoonup> string"
  circuitBreakers :: "string \<rightharpoonup> CircuitBreaker"
  emitted :: "Event list"

text \<open>The constructor, with the default strategy when none is given.\<close>

definition newLoadBalancer :: "LoadBalancingStrategy option \<Rightarrow> LoadBalancer" where
  "newLoadBalancer strategy_arg =
     \<lparr> nodes = [],
       strategy = (case strategy_arg of None \<Rightarrow> RoundRobinStrategy 0 | Some s \<Rightarrow> s),
       stickySessionMap = Map.empty, circuitBreakers = Map.empty, emitted = [] \<rparr>"

definition emit :: "Event \<Rightarrow> LoadBalancer \<Rightarrow> LoadBalancer" where
  "emit e lb = lb\<lparr>emitted := emitted lb @ [e]\<rparr>"

text \<open>
  \<open>addServer(config)\<close>: the fields \<open>isHealthy\<close>, \<open>lastHealthCheck\<close> and
  \<open>activeConnections\<close> of the argument are overwritten.  The health probe it starts
  completes later and is the separate operation \<open>checkServerHealth\<close>.
\<close>

definition addServer :: "ServerNode \<Rightarrow> LoadBalancer \<Rightarrow> LoadBalancer" where
  "addServer config lb =
     (let node = config\<lparr>isHealthy := False, lastHealthCheck := 0, activeConnections := 0\<rparr>
      in emit (ServerAdded node) (lb\<lparr>nodes := AList.update (node_id node) node (nodes lb)\<rparr>))"

definition removeServer :: "string \<Rightarrow> LoadBalancer \<Rightarrow> bool \<times> LoadBalancer" where
  "removeServer serverId lb =
     (case map_of (nodes lb) serverId of
        Some node \<Rightarrow>
          (True, emit (ServerRemoved node) (lb\<lparr>nodes := AList.delete serverId (nodes lb)\<rparr>))
      | None \<Rightarrow> (False, lb))"

text \<open>
  The argument of \<open>updateServerStats\<close>, a partial record of four fields;
  \<open>Object.assign\<close> copies the fields that are present.
\<close>

record ServerStats =
  stats_cpuUsage :: "rat option"
  stats_memoryUsage :: "rat option"
  stats_responseTime :: "rat option"
  stats_activeConnections :: "int option"

definition assign_stats :: "ServerNode \<Rightarrow> ServerStats \<Rightarrow> ServerNode" where
  "assign_stats node stats =
     node\<lparr> cpuUsage := (case stats_cpuUsage stats of None \<Rightarrow> cpuUsage node | Some v \<Rightarrow> v),
           memoryUsage := (case stats_memoryUsage stats of None \<Rightarrow> memoryUsage node | Some v \<Rightarrow> v),
           responseTime := (case stats_responseTime stats of None \<Rightarrow> responseTime node | Some v \<Rightarrow> v),
           activeConnections :=
             (case stats_activeConnections stats of None \<Rightarrow> activeConnections node | Some v \<Rightarrow> v) \<rparr>"

definition updateServerStats :: "string \<Rightarrow> ServerStats \<Rightarrow> LoadBalancer \<Rightarrow> LoadBalancer" where
  "updateServerStats serverId stats lb =
     (case map_of (nodes lb) serverId of
        Some node \<Rightarrow>
          (let node' = assign_stats node stats
           in emit (ServerStatsUpdated node') (lb\<lparr>nodes := AList.update serverId node' (nodes lb)\<rparr>))
      | None \<Rightarrow> lb)"

definition lb_selectServer :: "LoadBalancer \<Rightarrow> ServerNode option \<times> LoadBalancer" where
  "lb_selectServer lb =
     (let availableNodes = map snd (nodes lb);
          (selected, strategy') = selectServer (strategy lb) availableNodes;
          lb' = lb\<lparr>strategy := strategy'\<rparr>
      in (selected,
          (case selected of
             Some node \<Rightarrow> emit (ServerSelected node) lb'
           | None \<Rightarrow> emit NoServerAvailable lb')))"

definition incrementConnection :: "string \<Rightarrow> LoadBalancer \<Rightarrow> LoadBalancer" where
  "incrementConnection serverId lb =
     (case map_of (nodes lb) serverId of
        Some node \<Rightarrow>
          (let node' = node\<lparr>activeConnections := activeConnections node + 1\<rparr>
           in emit (ConnectionIncremented node') (lb\<lparr>nodes := AList.update serverId node' (nodes lb)\<rparr>))
      | None \<Rightarrow> lb)"

definition decrementConnection :: "string \<Rightarrow> LoadBalancer \<Rightarrow> LoadBalancer" where
  "decrementConnection serverId lb =
     (case map_of (nodes lb) serverId of
        Some node \<Rightarrow>
          (let node' = node\<lparr>activeConnections := max 0 (activeConnections node - 1)\<rparr>
           in emit (ConnectionDecremented node') (lb\<lparr>nodes := AList.update serverId node' (nodes lb)\<rparr>))
      | None \<Rightarrow> lb)"

definition setStrategy :: "LoadBalancingStrategy \<Rightarrow> LoadBalancer \<Rightarrow> LoadBalancer" where
  "setStrategy s lb = emit (StrategyChanged s) (lb\<lparr>strategy := s\<rparr>)"

text \<open>
  The completion of \<open>checkServerHealth(node)\<close> for the registered node \<open>serverId\<close>:
  \<open>outcome\<close> is \<open>Some ok\<close> when \<open>fetch\<close> answered with \<open>response.ok = ok\<close> and \<open>None\<close>
  when it threw; \<open>startTime\<close> and \<open>now\<close> are the clock values before and after the
  request.  The probe is taken to complete while the node object it was started for is
  still the registered one; a probe of an object that has left the registry changes no
  registered node.
\<close>

definition checkServerHealth ::
  "string \<Rightarrow> bool option \<Rightarrow> int \<Rightarrow> int \<Rightarrow> LoadBalancer \<Rightarrow> LoadBalancer" where
  "checkServerHealth serverId outcome startTime now lb =
     (case map_of (nodes lb) serverId of
        None \<Rightarrow> lb
      | Some node \<Rightarrow>
          (case outcome of
             Some ok \<Rightarrow>
               (let wasHealthy = isHealthy node;
                    node' = node\<lparr>isHealthy := ok, lastHealthCheck := now,
                                 responseTime := of_int (now - startTime)\<rparr>;
                    lb1 = lb\<lparr>nodes := AList.update serverId node' (nodes lb)\<rparr>;
                    lb2 = (if wasHealthy \<noteq> ok
                           then emit (if ok then ServerHealthy node' else ServerUnhealthy node') lb1
                           else lb1)
                in emit (HealthCheckCompleted node') lb2)
           | None \<Rightarrow>
               (let wasHealthy = isHealthy node;
                    node' = node\<lparr>isHealthy := False, lastHealthCheck := now,
                                 responseTime := of_int (now - startTime)\<rparr>;
                    lb1 = lb\<lparr>nodes := AList.update serverId node' (nodes lb)\<rparr>;
                    lb2 = (if wasHealthy then emit (ServerUnhealthy node') lb1 else lb1)
                in emit (HealthCheckFailed node') lb2)))"

definition getServerById :: "string \<Rightarrow> LoadBalancer \<Rightarrow> ServerNode option" where
  "getServerById serverId lb = map_of (nodes lb) serverId"

subsection \<open>Sticky sessions\<close>

definition assignStickySession :: "string \<Rightarrow> string \<Rightarrow> LoadBalancer \<Rightarrow> LoadBalancer" where
  "assignStickySession sessionId serverId lb =
     lb\<lparr>stickySessionMap := (stickySessionMap lb)(sessionId \<mapsto> serverId)\<rparr>"

text \<open>
  \<open>getStickyServer\<close>.  The test \<open>if (serverId)\<close> is JavaScript truthiness of a string:
  \<open>undefined\<close> (no mapping) and the empty string are falsy.
\<close>

definition getStickyServer :: "string \<Rightarrow> LoadBalancer \<Rightarrow> ServerNode option \<times> LoadBalancer" where
  "getStickyServer sessionId lb =
     (case stickySessionMap lb sessionId of
        None \<Rightarrow> (None, lb)
      | Some serverId \<Rightarrow>
          if serverId \<noteq> []
          then (case map_of (nodes lb) serverId of
                  Some node \<Rightarrow>
                    if isHealthy node \<and> activeConnections node < maxConnections node
                    then (Some node, lb)
                    else (None, lb\<lparr>stickySessionMap := (stickySessionMap lb)(sessionId := None)\<rparr>)
                | None \<Rightarrow>
                    (None, lb\<lparr>stickySessionMap := (stickySessionMap lb)(sessionId := None)\<rparr>))
          else (None, lb))"

definition removeStickySession :: "string \<Rightarrow> LoadBalancer \<Rightarrow> LoadBalancer" where
  "removeStickySession sessionId lb =
     lb\<lparr>stickySessionMap := (stickySessionMap lb)(sessionId := None)\<rparr>"

subsection \<open>Circuit breaker\<close>

definition isCircuitOpen :: "string \<Rightarrow> int \<Rightarrow> LoadBalancer \<Rightarrow> bool \<times> LoadBalancer" where
  "isCircuitOpen serverId now lb =
     (case circuitBreakers lb serverId of
        None \<Rightarrow> (False, lb)
      | Some breaker \<Rightarrow>
          if state breaker = Open
          then (let timeSinceLastFailure = now - lastFailureTime breaker
                in if timeSinceLastFailure > 60000
                   then (False,
                         lb\<lparr>circuitBreakers := (circuitBreakers lb)
                               (serverId \<mapsto> breaker\<lparr>state := HalfOpen, failures := 0\<rparr>)\<rparr>)
                   else (True, lb))
          else (False, lb))"

text \<open>The breaker of \<open>serverId\<close>, or the one \<open>recordFailure\<close> creates when there is none.\<close>

definition breakerOf :: "string \<Rightarrow> LoadBalancer \<Rightarrow> CircuitBreaker" where
  "breakerOf serverId lb =
     (case circuitBreakers lb serverId of
        None \<Rightarrow> \<lparr> failures = 0, lastFailureTime = 0, state = Closed \<rparr>
      | Some b \<Rightarrow> b)"

definition recordFailure :: "string \<Rightarrow> int \<Rightarrow> LoadBalancer \<Rightarrow> LoadBalancer" where
  "recordFailure serverId now lb =
     (let breaker = breakerOf serverId lb;
          breaker = breaker\<lparr>failures := failures breaker + 1\<rparr>;
          breaker = breaker\<lparr>lastFailureTime := now\<rparr>
      in if failures breaker \<ge> 5
         then emit (CircuitBreakerOpened serverId)
                (lb\<lparr>circuitBreakers := (circuitBreakers lb)(serverId \<mapsto> breaker\<lparr>state := Open\<rparr>)\<rparr>)
         else lb\<lparr>circuitBreakers := (circuitBreakers lb)(serverId \<mapsto> breaker)\<rparr>)"

definition recordSuccess :: "string \<Rightarrow> LoadBalancer \<Rightarrow> LoadBalancer" where
  "recordSuccess serverId lb =
     (case circuitBreakers lb serverId of
        None \<Rightarrow> lb
      | Some breaker \<Rightarrow>
          if state breaker = HalfOpen
          then emit (CircuitBreakerClosed serverId)
                 (lb\<lparr>circuitBreakers := (circuitBreakers lb)
                       (serverId \<mapsto> breaker\<lparr>state := Closed, failures := 0\<rparr>)\<rparr>)
          else lb)"

text \<open>\<open>recordFailure\<close> called at each of the given clock values, in order.\<close>

fun recordFailures :: "string \<Rightarrow> int list \<Rightarrow> LoadBalancer \<Rightarrow> LoadBalancer" where
  "recordFailures serverId [] lb = lb"
| "recordFailures serverId (now # nows) lb = recordFailures serverId nows (recordFailure serverId now lb)"

definition breakerState :: "string \<Rightarrow> LoadBalancer \<Rightarrow> BreakerState option" where
  "breakerState serverId lb = map_option state (circuitBreakers lb serverId)"

subsection \<open>The operations as a datatype\<close>

text \<open>
  One constructor per operation of the class that changes or may change its state, with
  the arguments of the call (and the clock values it reads); \<open>apply_op\<close> runs the
  operation and keeps the resulting state.
\<close>

datatype Operation =
    AddServer ServerNode
  | RemoveServer string
  | UpdateServerStats string ServerStats
  | SelectServer
  | IncrementConnection string
  | DecrementConnection string
  | SetStrategy LoadBalancingStrategy
  | CheckServerHealth string "bool option" int int
  | AssignStickySession string string
  | GetStickyServer string
  | RemoveStickySession string
  | IsCircuitOpen string int
  | RecordFailure string int
  | RecordSuccess string

fun apply_op :: "Operation \<Rightarrow> LoadBalancer \<Rightarrow> LoadBalancer" where
  "apply_op (AddServer config) lb = addServer config lb"
| "apply_op (RemoveServer serverId) lb = snd (removeServer serverId lb)"
| "apply_op (UpdateServerStats serverId stats) lb = updateServerStats serverId stats lb"
| "apply_op SelectServer lb = snd (lb_selectServer lb)"
| "apply_op (IncrementConnection serverId) lb = incrementConnection serverId lb"
| "apply_op (DecrementConnection serverId) lb = decrementConnection serverId lb"
| "apply_op (SetStrategy s) lb = setStrategy s lb"
| "apply_op (CheckServerHealth serverId outcome startTime now) lb =
     checkServerHealth serverId outcome startTime now lb"
| "apply_op (AssignStickySession sessionId serverId) lb = assignStickySession sessionId serverId lb"
| "apply_op (GetStickyServer sessionId) lb = snd (getStickyServer sessionId lb)"
| "apply_op (RemoveStickySession sessionId) lb = removeStickySession sessionId lb"
| "apply_op (IsCircuitOpen serverId now) lb = snd (isCircuitOpen serverId now lb)"
| "apply_op (RecordFailure serverId now) lb = recordFailure serverId now lb"
| "apply_op (RecordSuccess serverId) lb = recordSuccess serverId lb"

fun apply_ops :: "Operation list \<Rightarrow> LoadBalancer \<Rightarrow> LoadBalancer" where
  "apply_ops [] lb = lb"
| "apply_ops (op # ops) lb = apply_ops ops (apply_op op lb)"

text \<open>The invariant of the data model: no registered node has a negative connection count.\<close>

definition connections_nonneg :: "LoadBalancer \<Rightarrow> bool" where
  "connections_nonneg lb = (\<forall>node \<in> set (map snd (nodes lb)). 0 \<le> activeConnections node)"

text \<open>Operations other than a stats update that carries a negative connection count.\<close>

fun nonneg_stats :: "Operation \<Rightarrow> bool" where
  "nonneg_stats (UpdateServerStats serverId stats) =
     (case stats_activeConnections stats of None \<Rightarrow> True | Some v \<Rightarrow> 0 \<le> v)"
| "nonneg_stats _ = True"

section \<open>Concrete inputs\<close>

text \<open>The configuration \<open>{windowMs: 60000, max: 3}\<close> as the constructor stores it.\<close>

definition cfg3 :: RateLimitConfig where
  "cfg3 = mkConfig \<lparr> windowMs = 60000, max_requests = 3,
                     skipSuccessfulRequests = False, skipFailedRequests = False \<rparr>"

text \<open>The client \<open>c\<close> blacklisted at clock value 1000 for 5000 ms.\<close>

definition blockedClients :: clients where
  "blockedClients = blacklistClient ''c'' (Some 5000) 1000 Map.empty"

text \<open>
  Nodes: \<open>A\<close> (weight 2) and \<open>B\<close> (weight 1) healthy and idle, \<open>C\<close> unhealthy, \<open>Z\<close> healthy
  with weight 0, and \<open>E\<close> healthy with the empty string as its id.
\<close>

definition nodeA :: ServerNode where
  "nodeA = \<lparr> node_id = ''A'', host = ''10.0.0.1'', port = 8080, isHealthy = True,
             lastHealthCheck = 0, activeConnections = 0, maxConnections = 10,
             cpuUsage = 0, memoryUsage = 0, responseTime = 0, weight = 2 \<rparr>"

definition nodeB :: ServerNode where
  "nodeB = \<lparr> node_id = ''B'', host = ''10.0.0.2'', port = 8080, isHealthy = True,
             lastHealthCheck = 0, activeConnections = 0, maxConnections = 10,
             cpuUsage = 0, memoryUsage = 0, responseTime = 0, weight = 1 \<rparr>"

definition nodeC :: ServerNode where
  "nodeC = \<lparr> node_id = ''C'', host = ''10.0.0.3'', port = 8080, isHealthy = False,
             lastHealthCheck = 0, activeConnections = 0, maxConnections = 10,
             cpuUsage = 0, memoryUsage = 0, responseTime = 0, weight = 1 \<rparr>"

definition nodeZ :: ServerNode where
  "nodeZ = \<lparr> node_id = ''Z'', host = ''10.0.0.4'', port = 8080, isHealthy = True,
             lastHealthCheck = 0, activeConnections = 0, maxConnections = 10,
             cpuUsage = 0, memoryUsage = 0, responseTime = 0, weight = 0 \<rparr>"

definition nodeE :: ServerNode where
  "nodeE = \<lparr> node_id = [], host = ''10.0.0.5'', port = 8080, isHealthy = True,
             lastHealthCheck = 0, activeConnections = 0, maxConnections = 10,
             cpuUsage = 0, memoryUsage = 0, responseTime = 0, weight = 1 \<rparr>"

text \<open>A balancer with the single registered node \<open>A\<close>, healthy.\<close>

definition lbA :: LoadBalancer where
  "lbA = \<lparr> nodes = [(''A'', nodeA)], strategy = RoundRobinStrategy 0,
           stickySessionMap = Map.empty, circuitBreakers = Map.empty, emitted = [] \<rparr>"

text \<open>A balancer with the registered node \<open>E\<close> and the sticky session \<open>s1\<close> bound to it.\<close>

definition lbE :: LoadBalancer where
  "lbE = \<lparr> nodes = [([], nodeE)], strategy = RoundRobinStrategy 0,
           stickySessionMap = [''s1'' \<mapsto> []], circuitBreakers = Map.empty, emitted = [] \<rparr>"

text \<open>
  The sticky session \<open>s1\<close> bound to \<open>A\<close>, and the same after a failed health probe of \<open>A\<close>.
\<close>

definition lbSticky :: LoadBalancer where
  "lbSticky = assignStickySession ''s1'' ''A'' lbA"

definition lbStickyUnhealthy :: LoadBalancer where
  "lbStickyUnhealthy = checkServerHealth ''A'' (Some False) 100 110 lbSticky"

text \<open>
  Five failures of \<open>A\<close> recorded on a new balancer, and the state after the
  \<open>isCircuitOpen\<close> check made 65 seconds after the last of them.
\<close>

definition lbOpen :: LoadBalancer where
  "lbOpen = recordFailures ''A'' [1000, 2000, 3000, 4000, 5000] (newLoadBalancer None)"

definition lbHalfOpen :: LoadBalancer where
  "lbHalfOpen = snd (isCircuitOpen ''A'' 70000 lbOpen)"

text \<open>A stats update that carries the connection count \<open>-1\<close>.\<close>

definition negativeStats :: ServerStats where
  "negativeStats = \<lparr> stats_cpuUsage = None, stats_memoryUsage = None,
                     stats_responseTime = None, stats_activeConnections = Some (- 1) \<rparr>"

definition someOperations :: "Operation list" where
  "someOperations =
     [AddServer nodeB, IncrementConnection ''B'', DecrementConnection ''B'',
      DecrementConnection ''B'', DecrementConnection ''A'',
      UpdateServerStats ''B'' \<lparr> stats_cpuUsage = Some 50, stats_memoryUsage = None,
                                stats_responseTime = None, stats_activeConnections = Some 3 \<rparr>,
      CheckServerHealth ''B'' (Some True) 100 110, SelectServer, RemoveServer ''A'']"

section \<open>Properties of the rate limiter\<close>

lemmas rl_defs = checkLimit_def newClient_def truthy_def detectSuspiciousActivity_def
  getBlockDuration_def ceil_seconds_def Let_def denied_def admitted_def

subsection \<open>Penalty duration\<close>

text \<open>
  The penalty duration is non-decreasing in \<open>warnings\<close> for a fixed suspicion flag, and
  for equal \<open>warnings\<close> the duration of a suspicious client is never above that of a
  client that is not suspicious.
\<close>

lemma getBlockDuration_mono:
  "warnings c \<le> warnings c' \<Longrightarrow> suspiciousActivity c = suspiciousActivity c' \<Longrightarrow>
     getBlockDuration c \<le> getBlockDuration c'"
  unfolding getBlockDuration_def Let_def
  by (auto intro!: power_increasing simp: min_le_iff_disj)

lemma getBlockDuration_suspicious_le:
  "getBlockDuration (c\<lparr>suspiciousActivity := True\<rparr>) \<le> getBlockDuration (c\<lparr>suspiciousActivity := False\<rparr>)"
proof -
  consider "warnings c = 0" | "warnings c = 1" | "warnings c = 2" | "warnings c = 3"
    | "warnings c = 4" | "5 \<le> warnings c"
    by linarith
  then show ?thesis
  proof cases
    case 6
    then have "min (min (warnings c) 10) 5 = 5" by simp
    moreover have "int (min (warnings c) 10) \<le> 10" by simp
    ultimately show ?thesis by (simp add: getBlockDuration_def Let_def)
  qed (simp_all add: getBlockDuration_def Let_def)
qed

text \<open>
  C5.  The penalty duration at the failing input, a client with \<open>warnings = 0\<close>: 0 ms when
  \<open>suspiciousActivity\<close> is set and 60000 ms when it is not, so the duration of the
  suspicious client is not the greater one.
\<close>

theorem getBlockDuration_first_offence:
  "getBlockDuration (newClient\<lparr>suspiciousActivity := True\<rparr>) = 0
   \<and> getBlockDuration (newClient\<lparr>suspiciousActivity := False\<rparr>) = 60000"
  by (simp add: getBlockDuration_def newClient_def)

subsection \<open>The scenario with three allowed requests\<close>

text \<open>
  C2, as stated, fails: with the configuration \<open>{windowMs: 60000, max: 3}\<close> and a client
  never seen before, the fourth of four \<open>checkLimit\<close> calls at clock value 1000 reports
  \<open>retryAfter = 120\<close>, not about 60; the third recorded request has flagged the client as
  suspicious.
\<close>

theorem checkLimit_scenario_counterexample:
  "map retryAfter
     (fst (checkLimits cfg3 ''c'' [(True, 1000), (True, 1000), (True, 1000), (True, 1000)] Map.empty))
     = [None, None, None, Some 120]
   \<and> map_option suspiciousActivity
        (snd (checkLimits cfg3 ''c'' [(True, 1000), (True, 1000), (True, 1000), (True, 1000)] Map.empty)
           ''c'')
     = Some True"
  by (simp add: rl_defs cfg3_def mkConfig_def)

text \<open>
  C2, amended.  With the configuration \<open>{windowMs: 60000, max: 3}\<close> and a client never seen
  before, three \<open>checkLimit\<close> calls at the same clock value \<open>t\<close> return allowed with
  remaining 2, 1 and 0, and a fourth call at \<open>t\<close> returns \<open>allowed = false\<close> with remaining 0
  and a \<open>retryAfter\<close>; that call flags the client as suspicious, blocks it and counts its
  first warning.  The value of \<open>retryAfter\<close> and the end of the block are left out.
\<close>

theorem checkLimit_scenario:
  "map allowed (fst (checkLimits cfg3 c [(True, t), (True, t), (True, t), (True, t)] Map.empty))
     = [True, True, True, False]
   \<and> map remaining (fst (checkLimits cfg3 c [(True, t), (True, t), (True, t), (True, t)] Map.empty))
     = [2, 1, 0, 0]
   \<and> map (\<lambda>r. retryAfter r = None)
        (fst (checkLimits cfg3 c [(True, t), (True, t), (True, t), (True, t)] Map.empty))
     = [True, True, True, False]
   \<and> map_option (\<lambda>client. (suspiciousActivity client, blocked client, warnings client, totalRequests client))
        (snd (checkLimits cfg3 c [(True, t), (True, t), (True, t), (True, t)] Map.empty) c)
     = Some (True, True, 1, 4)"
  by (simp add: rl_defs cfg3_def mkConfig_def eval_nat_numeral)

subsection \<open>Repeated checks of a blocked client\<close>

text \<open>\<open>ceil_seconds\<close> is the ceiling of the quotient by 1000, and is monotone.\<close>

lemma ceil_seconds_ceiling: "ceil_seconds x = \<lceil>of_int x / (1000 :: rat)\<rceil>"
proof -
  have "\<lfloor>of_int (- x) / (of_int 1000 :: rat)\<rfloor> = (- x) div 1000"
    by (rule floor_divide_of_int_eq)
  then show ?thesis
    unfolding ceil_seconds_def ceiling_def by simp
qed

lemma ceil_seconds_mono: "x \<le> y \<Longrightarrow> ceil_seconds x \<le> ceil_seconds y"
  unfolding ceil_seconds_def by (simp add: zdiv_mono1)

lemma checkLimit_blocked:
  assumes "cs clientId = Some client" "blocked client" "blockedUntil client = Some b"
    and "0 \<le> t" "t < b"
  shows "checkLimit config clientId ok t cs = (denied (ceil_seconds (b - t)), cs)"
proof -
  have "cs(clientId \<mapsto> client) = cs"
    using assms(1) by (rule map_upd_triv)
  moreover have "truthy (blockedUntil client)"
    using assms by (simp add: truthy_def)
  ultimately show ?thesis
    using assms by (simp add: checkLimit_def denied_def)
qed

lemma checkLimits_blocked:
  assumes "cs clientId = Some client" "blocked client" "blockedUntil client = Some b"
    and "\<forall>call\<in>set calls. 0 \<le> snd call \<and> snd call < b"
  shows "checkLimits config clientId calls cs
           = (map (\<lambda>call. denied (ceil_seconds (b - snd call))) calls, cs)"
  using assms(4)
proof (induction calls)
  case Nil
  show ?case by simp
next
  case (Cons call calls)
  then have "checkLimit config clientId (fst call) (snd call) cs
               = (denied (ceil_seconds (b - snd call)), cs)"
    using assms(1-3) by (simp add: checkLimit_blocked)
  with Cons show ?case by simp
qed

lemma checkLimit_denied_blocked:
  assumes "checkLimit config clientId ok now cs = (r, cs1)" and "\<not> allowed r"
  shows "\<exists>client b. cs1 clientId = Some client \<and> blocked client \<and> blockedUntil client = Some b"
  using assms unfolding checkLimit_def Let_def truthy_def
  by (auto split: if_splits option.splits)

text \<open>
  C4, as stated, fails: in this run of one client the fourth call (clock 1000) is denied
  with \<open>retryAfter = 120\<close> and the fifth call at the same clock value is allowed; the
  ninth call (clock 120500) is denied with \<open>retryAfter = 1\<close> and the tenth call, 700 ms
  later, is allowed.
\<close>

theorem checkLimit_retry_counterexample:
  "fst (checkLimits cfg3 ''c''
          [(True, 1000), (True, 1000), (True, 1000), (True, 1000),
           (True, 1000), (True, 1000), (True, 1000), (True, 1000),
           (True, 120500), (True, 121200)] Map.empty)
     = [admitted 2, admitted 1, admitted 0, denied 120,
        admitted 2, admitted 1, admitted 0, denied 240,
        denied 1, admitted 2]"
  by (simp add: rl_defs cfg3_def mkConfig_def)

text \<open>
  C4, amended.  Once \<open>checkLimit\<close> returns \<open>allowed = false\<close>, the client's entry is
  blocked with some \<open>blockedUntil = b\<close>; every run of repeated \<open>checkLimit\<close> calls of that
  client at non-negative clock values before \<open>b\<close> returns \<open>allowed = false\<close> with
  \<open>retryAfter = ceil((b - now) / 1000)\<close> at each call and leaves the state unchanged, and
  that \<open>retryAfter\<close> is non-increasing in the clock value.
\<close>

theorem checkLimit_denied_repeat:
  assumes "checkLimit config clientId ok now cs = (r, cs1)" and "\<not> allowed r"
  shows "\<exists>client b. cs1 clientId = Some client \<and> blocked client \<and> blockedUntil client = Some b \<and>
    (\<forall>calls. (\<forall>call\<in>set calls. 0 \<le> snd call \<and> snd call < b) \<longrightarrow>
       checkLimits config clientId calls cs1
         = (map (\<lambda>call. denied (ceil_seconds (b - snd call))) calls, cs1)) \<and>
    (\<forall>t t'. t \<le> t' \<longrightarrow> ceil_seconds (b - t') \<le> ceil_seconds (b - t))"
proof -
  from checkLimit_denied_blocked [OF assms]
  obtain client b where cb: "cs1 clientId = Some client" "blocked client" "blockedUntil client = Some b"
    by blast
  have "\<forall>calls. (\<forall>call\<in>set calls. 0 \<le> snd call \<and> snd call < b) \<longrightarrow>
       checkLimits config clientId calls cs1
         = (map (\<lambda>call. denied (ceil_seconds (b - snd call))) calls, cs1)"
    using cb by (simp add: checkLimits_blocked)
  moreover have "\<forall>t t'. t \<le> t' \<longrightarrow> ceil_seconds (b - t') \<le> ceil_seconds (b - t)"
    by (simp add: ceil_seconds_mono)
  ultimately show ?thesis using cb by blast
qed

text \<open>
  The theorem at a client blacklisted at 1000 until 6000: a check at 1000 is denied with
  \<open>retryAfter = 5\<close>, and the checks at 2000 and 3500 are denied with 4 and 3.
\<close>

theorem checkLimit_denied_repeat_witness:
  "checkLimit cfg3 ''c'' True 1000 blockedClients = (denied 5, blockedClients)
   \<and> \<not> allowed (denied 5)
   \<and> checkLimits cfg3 ''c'' [(True, 2000), (False, 3500)] blockedClients
        = ([denied 4, denied 3], blockedClients)"
proof -
  have c: "checkLimit cfg3 ''c'' True 1000 blockedClients = (denied 5, blockedClients)"
    by (simp add: checkLimit_def blockedClients_def blacklistClient_def blacklistDuration_def
          newClient_def Let_def truthy_def denied_def ceil_seconds_def)
  have d: "\<not> allowed (denied 5)" by (simp add: denied_def)
  from checkLimit_denied_repeat [OF c d]
  obtain b where b: "blockedUntil (the (blockedClients ''c'')) = Some b"
    and calls: "\<And>calls. (\<forall>call\<in>set calls. 0 \<le> snd call \<and> snd call < b) \<Longrightarrow>
       checkLimits cfg3 ''c'' calls blockedClients
         = (map (\<lambda>call. denied (ceil_seconds (b - snd call))) calls, blockedClients)"
    by auto
  from b have "b = 6000"
    by (simp add: blockedClients_def blacklistClient_def blacklistDuration_def newClient_def Let_def)
  with calls [of "[(True, 2000), (False, 3500)]"]
  have "checkLimits cfg3 ''c'' [(True, 2000), (False, 3500)] blockedClients
        = ([denied 4, denied 3], blockedClients)"
    by (simp add: ceil_seconds_def)
  with c d show ?thesis by simp
qed

subsection \<open>Blacklisting an unknown client\<close>

text \<open>
  C10.  \<open>blacklistClient\<close> on a client id with no entry stores a new entry with
  \<open>blocked = true\<close>, \<open>blockedUntil = now + duration\<close> (24 hours when no duration is
  given) and \<open>suspiciousActivity = true\<close>; at every clock value \<open>t\<close> from \<open>now\<close> up to, not
  including, \<open>now + duration\<close>, \<open>isBlocked\<close> is true and \<open>checkLimit\<close> returns
  \<open>allowed = false\<close> and changes nothing.
\<close>

theorem blacklistClient_unseen:
  assumes "cs clientId = None" and "0 \<le> now"
  shows "blacklistClient clientId duration_arg now cs
           = cs(clientId \<mapsto> newClient\<lparr>blocked := True,
                  blockedUntil := Some (now + blacklistDuration duration_arg),
                  suspiciousActivity := True\<rparr>)
         \<and> (\<forall>t. now \<le> t \<and> t < now + blacklistDuration duration_arg \<longrightarrow>
               isBlocked clientId t (blacklistClient clientId duration_arg now cs)
             \<and> checkLimit config clientId ok t (blacklistClient clientId duration_arg now cs)
                 = (denied (ceil_seconds (now + blacklistDuration duration_arg - t)),
                    blacklistClient clientId duration_arg now cs))"
proof -
  let ?d = "blacklistDuration duration_arg"
  let ?cl = "newClient\<lparr>blocked := True, blockedUntil := Some (now + ?d), suspiciousActivity := True\<rparr>"
  have bl: "blacklistClient clientId duration_arg now cs = cs(clientId \<mapsto> ?cl)"
    using assms(1) by (simp add: blacklistClient_def Let_def)
  have "isBlocked clientId t (cs(clientId \<mapsto> ?cl))
        \<and> checkLimit config clientId ok t (cs(clientId \<mapsto> ?cl))
           = (denied (ceil_seconds (now + ?d - t)), cs(clientId \<mapsto> ?cl))"
    if t: "now \<le> t" "t < now + ?d" for t
  proof -
    have "0 \<le> t" using assms(2) t by simp
    then have "checkLimit config clientId ok t (cs(clientId \<mapsto> ?cl))
           = (denied (ceil_seconds (now + ?d - t)), cs(clientId \<mapsto> ?cl))"
      using t by (intro checkLimit_blocked [where client = ?cl]) simp_all
    moreover have "isBlocked clientId t (cs(clientId \<mapsto> ?cl))"
      using t assms(2) by (simp add: isBlocked_def truthy_def)
    ultimately show ?thesis by simp
  qed
  with bl show ?thesis by simp
qed

text \<open>
  The theorem at the empty client map, clock 1000 and the default duration: one second
  later the client is blocked and \<open>checkLimit\<close> answers \<open>retryAfter = 86399\<close>.
\<close>

theorem blacklistClient_unseen_witness:
  "(Map.empty :: clients) ''x'' = None \<and> (0::int) \<le> 1000
   \<and> blacklistClient ''x'' None 1000 Map.empty ''x''
       = Some \<lparr> requests = [], blocked = True, blockedUntil = Some 86401000, warnings = 0,
                totalRequests = 0, suspiciousActivity = True \<rparr>
   \<and> isBlocked ''x'' 2000 (blacklistClient ''x'' None 1000 Map.empty)
   \<and> fst (checkLimit cfg3 ''x'' True 2000 (blacklistClient ''x'' None 1000 Map.empty)) = denied 86399"
proof -
  have h1: "(Map.empty :: clients) ''x'' = None" by simp
  have h2: "(0::int) \<le> 1000" by simp
  note th = blacklistClient_unseen [where duration_arg = None and config = cfg3 and ok = True, OF h1 h2]
  from th have e: "blacklistClient ''x'' None 1000 Map.empty ''x''
       = Some \<lparr> requests = [], blocked = True, blockedUntil = Some 86401000, warnings = 0,
                totalRequests = 0, suspiciousActivity = True \<rparr>"
    by (simp add: newClient_def blacklistDuration_def)
  have "(1000::int) \<le> 2000 \<and> 2000 < 1000 + blacklistDuration None"
    by (simp add: blacklistDuration_def)
  with th have "isBlocked ''x'' 2000 (blacklistClient ''x'' None 1000 Map.empty)
     \<and> checkLimit cfg3 ''x'' True 2000 (blacklistClient ''x'' None 1000 Map.empty)
         = (denied (ceil_seconds (1000 + blacklistDuration None - 2000)),
            blacklistClient ''x'' None 1000 Map.empty)"
    by blast
  then have "isBlocked ''x'' 2000 (blacklistClient ''x'' None 1000 Map.empty)
     \<and> fst (checkLimit cfg3 ''x'' True 2000 (blacklistClient ''x'' None 1000 Map.empty)) = denied 86399"
    by (simp add: blacklistDuration_def ceil_seconds_def)
  with h1 h2 e show ?thesis by blast
qed

section \<open>Properties of the strategies\<close>

subsection \<open>Only selectable nodes are returned\<close>

lemma rr_selectServer_sound:
  "rr_selectServer i ns = (Some n, j) \<Longrightarrow> n \<in> set (filter selectable ns)"
  unfolding rr_selectServer_def Let_def
  by (auto split: if_splits simp: nth_mem simp del: set_filter)

lemma lc_fold_mem:
  "foldl (\<lambda>m node. if activeConnections node < activeConnections m then node else m) x xs \<in> set (x # xs)"
  by (induction xs arbitrary: x) auto

lemma lc_selectServer_sound:
  "lc_selectServer ns = Some n \<Longrightarrow> n \<in> set (filter selectable ns)"
  unfolding lc_selectServer_def using lc_fold_mem
  by (auto split: list.splits simp del: set_filter)

lemma pb_selectServer_sound:
  "pb_selectServer ns = Some n \<Longrightarrow> n \<in> set (filter selectable ns)"
proof -
  assume a: "pb_selectServer ns = Some n"
  let ?av = "filter selectable ns"
  from a have ne: "?av \<noteq> []" and n: "n = hd (sort_key calculatePerformanceScore ?av)"
    by (auto simp: pb_selectServer_def Let_def split: if_splits)
  from ne have "sort_key calculatePerformanceScore ?av \<noteq> []"
    by (metis length_0_conv length_sort)
  then have "hd (sort_key calculatePerformanceScore ?av) \<in> set (sort_key calculatePerformanceScore ?av)"
    by (rule hd_in_set)
  with n show ?thesis by (simp only: set_sort)
qed

lemma refresh_entry_cases:
  "distinct (map entry_id q) \<Longrightarrow> e \<in> set (refresh_entry node q) \<Longrightarrow>
     server e = node \<or> (e \<in> set q \<and> entry_id e \<noteq> node_id node)"
proof (induction q)
  case Nil
  then show ?case by simp
next
  case (Cons a q)
  show ?case
  proof (cases "entry_id a = node_id node")
    case True
    with Cons.prems show ?thesis by (auto simp: image_iff)
  next
    case False
    with Cons show ?thesis by auto
  qed
qed

lemma refresh_entry_ids:
  "map entry_id (refresh_entry node q) = map entry_id q"
  by (induction q) (auto simp: entry_id_def)

lemma add_or_refresh_distinct:
  "distinct (map entry_id q) \<Longrightarrow> distinct (map entry_id (add_or_refresh q node))"
  by (auto simp: add_or_refresh_def refresh_entry_ids list_ex_iff entry_id_def)

lemma add_or_refresh_cases:
  assumes "distinct (map entry_id q)" and "e \<in> set (add_or_refresh q node)"
  shows "server e = node \<or> (e \<in> set q \<and> entry_id e \<noteq> node_id node)"
proof (cases "list_ex (\<lambda>entry. entry_id entry = node_id node) q")
  case True
  with assms show ?thesis by (simp add: add_or_refresh_def refresh_entry_cases)
next
  case False
  with assms show ?thesis by (auto simp: add_or_refresh_def list_ex_iff)
qed

lemma foldl_add_or_refresh_inv:
  assumes "distinct (map entry_id q)"
    and "\<forall>e\<in>set q. server e \<in> H \<or> entry_id e \<in> node_id ` set ns"
    and "set ns \<subseteq> H"
  shows "distinct (map entry_id (foldl add_or_refresh q ns))
         \<and> (\<forall>e\<in>set (foldl add_or_refresh q ns). server e \<in> H)"
  using assms
proof (induction ns arbitrary: q)
  case Nil
  then show ?case by auto
next
  case (Cons n ns)
  have d: "distinct (map entry_id (add_or_refresh q n))"
    using Cons.prems(1) by (rule add_or_refresh_distinct)
  have "\<forall>e\<in>set (add_or_refresh q n). server e \<in> H \<or> entry_id e \<in> node_id ` set ns"
  proof
    fix e assume "e \<in> set (add_or_refresh q n)"
    from add_or_refresh_cases [OF Cons.prems(1) this]
    show "server e \<in> H \<or> entry_id e \<in> node_id ` set ns"
      using Cons.prems(2,3) by auto
  qed
  moreover have "set ns \<subseteq> H" using Cons.prems(3) by simp
  ultimately show ?case using Cons.IH [OF d] by simp
qed

lemma updateWeightedQueue_inv:
  assumes "distinct (map entry_id q)"
  shows "distinct (map entry_id (updateWeightedQueue ns q))
         \<and> (\<forall>e\<in>set (updateWeightedQueue ns q). server e \<in> set ns)"
  unfolding updateWeightedQueue_def
proof (rule foldl_add_or_refresh_inv)
  show "distinct (map entry_id (filter (\<lambda>entry. list_ex (\<lambda>node. node_id node = entry_id entry \<and> isHealthy node
                                          \<and> activeConnections node < maxConnections node) ns) q))"
    using assms by (simp add: distinct_map_filter)
qed (auto simp: list_ex_iff image_iff, metis)

lemma take_first_positive_servers:
  "take_first_positive q = Some (n, q') \<Longrightarrow> n \<in> server ` set q \<and> map server q' = map server q"
  by (induction q arbitrary: n q') (auto split: if_splits option.splits)

lemma entry_id_comp: "entry_id = node_id \<circ> server"
  by (rule ext) (simp add: entry_id_def)

lemma reset_weights_servers: "map server (reset_weights q) = map server q"
  by (simp add: reset_weights_def)

lemma entry_ids_servers: "map entry_id q = map node_id (map server q)"
  by (simp add: entry_id_def)

lemma wrr_selectServer_sound:
  assumes "distinct (map entry_id q)" and "wrr_selectServer q ns = (r, q')"
  shows "distinct (map entry_id q') \<and> (\<forall>n. r = Some n \<longrightarrow> n \<in> set (filter selectable ns))"
proof (cases "filter selectable ns = []")
  case True
  with assms show ?thesis by (simp add: wrr_selectServer_def)
next
  case False
  let ?q1 = "updateWeightedQueue (filter selectable ns) q"
  from updateWeightedQueue_inv [OF assms(1)]
  have d1: "distinct (map entry_id ?q1)"
    and s1: "\<forall>e\<in>set ?q1. server e \<in> set (filter selectable ns)" by blast+
  show ?thesis
  proof (cases "take_first_positive ?q1")
    case (Some p)
    then obtain n q2 where p: "take_first_positive ?q1 = Some (n, q2)" by (cases p) simp
    from take_first_positive_servers [OF p] d1 s1
    have "distinct (map entry_id q2)" "n \<in> set (filter selectable ns)"
      by (auto simp: entry_ids_servers simp del: set_filter)
    with p assms(2) False show ?thesis
      by (auto simp: wrr_selectServer_def Let_def split: if_splits simp del: set_filter)
  next
    case None
    show ?thesis
    proof (cases "reset_weights ?q1")
      case Nil
      with None assms(2) False show ?thesis
        by (auto simp: wrr_selectServer_def Let_def split: if_splits)
    next
      case (Cons first rest)
      have ms: "map server (first # rest) = map server ?q1"
        using Cons reset_weights_servers [of ?q1] by simp
      then have "server first \<in> server ` set ?q1"
        by (metis list.set_intros(1) list.set_map list.simps(9))
      with s1 have m: "server first \<in> set (filter selectable ns)" by auto
      have "map entry_id (first\<lparr>remainingWeight := remainingWeight first - 1\<rparr> # rest) = map entry_id ?q1"
        using arg_cong [OF ms, of "map node_id"] by (simp add: entry_id_comp)
      with d1 have "distinct (map entry_id (first\<lparr>remainingWeight := remainingWeight first - 1\<rparr> # rest))"
        by simp
      with m None Cons assms(2) False show ?thesis
        by (auto simp: wrr_selectServer_def Let_def split: if_splits simp del: set_filter)
    qed
  qed
qed

lemma selectServer_sound:
  assumes "strategy_inv st" and "selectServer st ns = (r, st')"
  shows "strategy_inv st' \<and> (\<forall>n. r = Some n \<longrightarrow> n \<in> set (filter selectable ns))"
proof (cases st)
  case (RoundRobinStrategy i)
  with assms show ?thesis
    by (auto simp del: set_filter split: prod.splits dest: rr_selectServer_sound)
next
  case LeastConnectionsStrategy
  with assms show ?thesis by (auto simp del: set_filter dest: lc_selectServer_sound)
next
  case (WeightedRoundRobinStrategy q)
  with assms show ?thesis
    by (auto simp del: set_filter split: prod.splits dest: wrr_selectServer_sound)
next
  case PerformanceBasedStrategy
  with assms show ?thesis by (auto simp del: set_filter dest: pb_selectServer_sound)
qed

lemma selectServer_none:
  assumes "\<forall>n\<in>set ns. \<not> selectable n"
  shows "fst (selectServer st ns) = None"
proof -
  from assms have "filter selectable ns = []" by (simp add: filter_empty_conv)
  then show ?thesis
    by (cases st) (simp_all add: rr_selectServer_def lc_selectServer_def wrr_selectServer_def pb_selectServer_def split: prod.splits)
qed

lemma fresh_inv: "fresh st \<Longrightarrow> strategy_inv st"
  by (cases st) simp_all

lemma selectServers_sound:
  assumes "strategy_inv st" and "i < length nss"
  shows "(\<forall>n. selectServers st nss ! i = Some n \<longrightarrow> n \<in> set (filter selectable (nss ! i)))
         \<and> ((\<forall>n\<in>set (nss ! i). \<not> selectable n) \<longrightarrow> selectServers st nss ! i = None)"
  using assms
proof (induction nss arbitrary: st i)
  case Nil
  then show ?case by simp
next
  case (Cons ns nss)
  obtain r st' where s: "selectServer st ns = (r, st')" by (cases "selectServer st ns")
  note snd = selectServer_sound [OF Cons.prems(1) s]
  from snd have inv': "strategy_inv st'" by (rule conjunct1)
  from snd have r: "\<forall>n. r = Some n \<longrightarrow> n \<in> set (filter selectable ns)" by (rule conjunct2)
  have step: "selectServers st (ns # nss) = r # selectServers st' nss"
    using s by simp
  show ?case
  proof (cases i)
    case 0
    have "(\<forall>n\<in>set ns. \<not> selectable n) \<longrightarrow> r = None"
      using selectServer_none [of ns st] s by simp
    with r show ?thesis unfolding step 0 by (simp del: set_filter)
  next
    case (Suc k)
    with Cons.prems(2) have "k < length nss" by simp
    from Cons.IH [OF inv' this] show ?thesis unfolding step Suc by (simp del: set_filter)
  qed
qed

text \<open>
  C1.  On a freshly constructed strategy of any of the four kinds, and for every sequence of
  node lists passed to consecutive \<open>selectServer\<close> calls, the node returned by call \<open>i\<close>
  is a member of the list of that call, is healthy and has
  \<open>activeConnections < maxConnections\<close>; and when no node of that list is healthy and below
  capacity the call returns none.
\<close>

theorem selectServer_never_unselectable:
  assumes "fresh st" and "i < length nss"
  shows "(\<forall>n. selectServers st nss ! i = Some n \<longrightarrow>
            n \<in> set (nss ! i) \<and> isHealthy n \<and> activeConnections n < maxConnections n)
         \<and> ((\<forall>n\<in>set (nss ! i). \<not> isHealthy n \<or> activeConnections n \<ge> maxConnections n) \<longrightarrow>
              selectServers st nss ! i = None)"
proof -
  note s = selectServers_sound [OF fresh_inv [OF assms(1)] assms(2)]
  have a: "\<forall>n. selectServers st nss ! i = Some n \<longrightarrow>
            n \<in> set (nss ! i) \<and> isHealthy n \<and> activeConnections n < maxConnections n"
    using s by (simp add: selectable_def)
  have "\<forall>n\<in>set (nss ! i). \<not> selectable n"
    if "\<forall>n\<in>set (nss ! i). \<not> isHealthy n \<or> activeConnections n \<ge> maxConnections n"
    using that by (auto simp: selectable_def)
  with s have b: "(\<forall>n\<in>set (nss ! i). \<not> isHealthy n \<or> activeConnections n \<ge> maxConnections n) \<longrightarrow>
              selectServers st nss ! i = None"
    by blast
  from a b show ?thesis by (rule conjI)
qed

text \<open>
  The theorem at a fresh weighted round-robin strategy called with the lists \<open>[A, C]\<close> and
  \<open>[C]\<close>, where \<open>A\<close> is healthy and \<open>C\<close> is not: the calls return \<open>A\<close> and none.
\<close>

theorem selectServer_never_unselectable_witness:
  "fresh (WeightedRoundRobinStrategy []) \<and> (0::nat) < length [[nodeA, nodeC], [nodeC]]
   \<and> selectServers (WeightedRoundRobinStrategy []) [[nodeA, nodeC], [nodeC]] = [Some nodeA, None]
   \<and> nodeA \<in> set [nodeA, nodeC] \<and> isHealthy nodeA \<and> activeConnections nodeA < maxConnections nodeA
   \<and> \<not> isHealthy nodeC"
proof -
  have f: "fresh (WeightedRoundRobinStrategy [])" by simp
  have l0: "(0::nat) < length [[nodeA, nodeC], [nodeC]]" by simp
  have l1: "(1::nat) < length [[nodeA, nodeC], [nodeC]]" by simp
  have r: "selectServers (WeightedRoundRobinStrategy []) [[nodeA, nodeC], [nodeC]] = [Some nodeA, None]"
    by code_simp
  have c: "\<forall>n\<in>set [nodeC]. \<not> isHealthy n \<or> activeConnections n \<ge> maxConnections n"
    by (simp add: nodeC_def)
  from selectServer_never_unselectable [OF f l0] r
  have "nodeA \<in> set [nodeA, nodeC] \<and> isHealthy nodeA \<and> activeConnections nodeA < maxConnections nodeA"
    by simp
  moreover from selectServer_never_unselectable [OF f l1] c
  have "selectServers (WeightedRoundRobinStrategy []) [[nodeA, nodeC], [nodeC]] ! 1 = None"
    by simp
  moreover have "\<not> isHealthy nodeC" by (simp add: nodeC_def)
  ultimately show ?thesis using f l0 r by simp
qed

subsection \<open>Weighted round-robin over a full cycle\<close>

lemma positive_weights_Cons:
  "positive_weights (n # ns) \<longleftrightarrow> 1 \<le> weight n \<and> positive_weights ns"
  by (simp add: positive_weights_def)

lemma total_weight_Cons:
  "positive_weights (n # ns) \<Longrightarrow> total_weight (n # ns) = nat (weight n) + total_weight ns"
proof -
  assume a: "positive_weights (n # ns)"
  then have "0 \<le> sum_list (map weight ns)"
    by (intro sum_list_nonneg) (auto simp: positive_weights_def)
  moreover from a have "0 \<le> weight n" by (simp add: positive_weights_def)
  ultimately show ?thesis by (simp add: total_weight_def nat_add_distrib)
qed

lemma length_weighted_cycle:
  "positive_weights ns \<Longrightarrow> length (weighted_cycle ns) = total_weight ns"
proof (induction ns)
  case Nil
  show ?case by (simp add: total_weight_def)
next
  case (Cons n ns)
  from Cons.prems have "positive_weights ns" by (simp add: positive_weights_Cons)
  with Cons.IH total_weight_Cons [OF Cons.prems] show ?case by simp
qed

lemma consumed_0: "positive_weights ns \<Longrightarrow> consumed 0 ns = map new_entry ns"
  by (cases ns) (simp_all add: positive_weights_Cons new_entry_def)

lemma server_new_entry: "map server (map new_entry ns) = ns"
  by (induction ns) (simp_all add: new_entry_def)

lemma server_consumed: "map server (consumed c ns) = ns"
  by (induction ns arbitrary: c) (simp_all add: server_new_entry del: map_map)

lemma take_first_positive_consumed:
  assumes "positive_weights ns" and "c < total_weight ns"
  shows "take_first_positive (consumed c ns) = Some (weighted_cycle ns ! c, consumed (Suc c) ns)"
  using assms
proof (induction ns arbitrary: c)
  case Nil
  then show ?case by (simp add: total_weight_def)
next
  case (Cons n ns)
  from Cons.prems(1) have w: "1 \<le> weight n" and pw: "positive_weights ns"
    by (simp_all add: positive_weights_Cons)
  show ?case
  proof (cases "c < nat (weight n)")
    case True
    then have pos: "0 < weight n - int c" by linarith
    have cyc: "weighted_cycle (n # ns) ! c = n"
      using True by (simp add: nth_append)
    show ?thesis
    proof (cases "Suc c < nat (weight n)")
      case True
      with \<open>c < nat (weight n)\<close> pos cyc show ?thesis by simp
    next
      case False
      with \<open>c < nat (weight n)\<close> have "weight n - int c - 1 = 0" by linarith
      with False \<open>c < nat (weight n)\<close> pos cyc consumed_0 [OF pw] show ?thesis by simp
    qed
  next
    case False
    with Cons.prems(2) total_weight_Cons [OF Cons.prems(1)]
    have lt: "c - nat (weight n) < total_weight ns" by linarith
    have cyc: "weighted_cycle (n # ns) ! c = weighted_cycle ns ! (c - nat (weight n))"
      using False by (simp add: nth_append)
    from False have S: "Suc c - nat (weight n) = Suc (c - nat (weight n))" by linarith
    from Cons.IH [OF pw lt] False cyc S show ?thesis by simp
  qed
qed

lemma take_first_positive_exhausted:
  assumes "positive_weights ns" and "total_weight ns \<le> c"
  shows "take_first_positive (consumed c ns) = None"
  using assms
proof (induction ns arbitrary: c)
  case Nil
  then show ?case by simp
next
  case (Cons n ns)
  from Cons.prems(1) have pw: "positive_weights ns" by (simp add: positive_weights_Cons)
  from Cons.prems(2) total_weight_Cons [OF Cons.prems(1)]
  have ge: "\<not> c < nat (weight n)" and le: "total_weight ns \<le> c - nat (weight n)" by linarith+
  from Cons.IH [OF pw le] ge show ?case by simp
qed

lemma reset_weights_consumed: "reset_weights (consumed c ns) = map new_entry ns"
proof (induction ns arbitrary: c)
  case Nil
  show ?case by (simp add: reset_weights_def)
next
  case (Cons n ns)
  have "reset_weights (map new_entry ns) = map new_entry ns"
    by (simp add: reset_weights_def new_entry_def)
  with Cons.IH [of "c - nat (weight n)"] show ?case
    by (simp add: reset_weights_def new_entry_def)
qed

lemma refresh_entry_same:
  "\<forall>e\<in>set q. entry_id e = node_id n \<longrightarrow> server e = n \<Longrightarrow> refresh_entry n q = q"
  by (induction q) simp_all

lemma add_or_refresh_same:
  assumes "n \<in> set (map server q)"
    and "\<forall>e\<in>set q. entry_id e = node_id n \<longrightarrow> server e = n"
  shows "add_or_refresh q n = q"
proof -
  from assms(1) obtain e where "e \<in> set q" "server e = n" by auto
  then have "list_ex (\<lambda>entry. entry_id entry = node_id n) q"
    by (auto simp: list_ex_iff entry_id_def)
  with refresh_entry_same [OF assms(2)] show ?thesis by (simp add: add_or_refresh_def)
qed

lemma foldl_add_or_refresh_same:
  assumes "\<forall>n\<in>set ms. n \<in> set (map server q) \<and> (\<forall>e\<in>set q. entry_id e = node_id n \<longrightarrow> server e = n)"
  shows "foldl add_or_refresh q ms = q"
  using assms by (induction ms) (simp_all add: add_or_refresh_same del: set_map)

lemma distinct_ids_server:
  assumes "distinct (map node_id ns)" and "map server q = ns" and "n \<in> set ns" and "e \<in> set q"
    and "entry_id e = node_id n"
  shows "server e = n"
proof -
  from assms(2,4) have "server e \<in> set ns" by auto
  moreover from assms(1) have "inj_on node_id (set ns)" by (simp add: distinct_map)
  ultimately show ?thesis using assms(3,5) by (simp add: entry_id_def inj_on_def)
qed

lemma updateWeightedQueue_static:
  assumes "distinct (map node_id ns)" and "map server q = ns" and "\<forall>n\<in>set ns. selectable n"
  shows "updateWeightedQueue ns q = q"
proof -
  have "\<forall>e\<in>set q. list_ex (\<lambda>node. node_id node = entry_id e \<and> isHealthy node
                                          \<and> activeConnections node < maxConnections node) ns"
  proof
    fix e assume "e \<in> set q"
    with assms(2) have "server e \<in> set ns" by auto
    with assms(3) have "selectable (server e)" by simp
    with \<open>server e \<in> set ns\<close> show "list_ex (\<lambda>node. node_id node = entry_id e \<and> isHealthy node
                                          \<and> activeConnections node < maxConnections node) ns"
      unfolding list_ex_iff entry_id_def selectable_def by (intro bexI [of _ "server e"]) simp_all
  qed
  then have f: "filter (\<lambda>entry. list_ex (\<lambda>node. node_id node = entry_id entry \<and> isHealthy node
                                          \<and> activeConnections node < maxConnections node) ns) q = q"
    by (simp add: filter_id_conv)
  have "foldl add_or_refresh q ns = q"
  proof (rule foldl_add_or_refresh_same, rule ballI, rule conjI)
    fix n assume "n \<in> set ns"
    with assms(2) show "n \<in> set (map server q)" by simp
    from \<open>n \<in> set ns\<close> show "\<forall>e\<in>set q. entry_id e = node_id n \<longrightarrow> server e = n"
      using distinct_ids_server [OF assms(1,2)] by simp
  qed
  with f show ?thesis by (simp add: updateWeightedQueue_def)
qed

lemma foldl_add_new:
  assumes "distinct (map node_id (pre @ post))"
  shows "foldl add_or_refresh (map new_entry pre) post = map new_entry (pre @ post)"
  using assms
proof (induction post arbitrary: pre)
  case Nil
  show ?case by simp
next
  case (Cons n post)
  from Cons.prems have "node_id n \<notin> node_id ` set pre" by auto
  then have "\<not> list_ex (\<lambda>entry. entry_id entry = node_id n) (map new_entry pre)"
    by (auto simp: list_ex_iff entry_id_def new_entry_def image_iff)
  then have "add_or_refresh (map new_entry pre) n = map new_entry (pre @ [n])"
    by (simp add: add_or_refresh_def new_entry_def)
  moreover from Cons.prems have "distinct (map node_id ((pre @ [n]) @ post))" by simp
  ultimately show ?case using Cons.IH [of "pre @ [n]"] by simp
qed

lemma updateWeightedQueue_empty:
  "distinct (map node_id ns) \<Longrightarrow> updateWeightedQueue ns [] = map new_entry ns"
  using foldl_add_new [of "[]" ns] by (simp add: updateWeightedQueue_def)

lemma total_weight_pos:
  assumes "positive_weights ns" and "ns \<noteq> []"
  shows "0 < total_weight ns"
proof (cases ns)
  case Nil
  with assms show ?thesis by simp
next
  case (Cons n ms)
  with assms(1) have "1 \<le> weight n" by (simp add: positive_weights_Cons)
  with total_weight_Cons [of n ms] assms(1) Cons show ?thesis by simp
qed

lemma wrr_on_queue:
  assumes "ns \<noteq> []" and "\<forall>n\<in>set ns. selectable n" and "updateWeightedQueue ns q = q1" and "q1 \<noteq> []"
  shows "wrr_selectServer q ns =
           (case take_first_positive q1 of
              Some (node, q2) \<Rightarrow> (Some node, q2)
            | None \<Rightarrow>
                (case reset_weights q1 of
                   [] \<Rightarrow> (None, [])
                 | first # rest \<Rightarrow>
                     (Some (server first),
                      first\<lparr>remainingWeight := remainingWeight first - 1\<rparr> # rest)))"
proof -
  from assms(2) have "filter selectable ns = ns" by (simp add: filter_id_conv)
  with assms(1,3,4) show ?thesis by (simp add: wrr_selectServer_def)
qed

lemma consumed_nonempty: "ns \<noteq> [] \<Longrightarrow> consumed c ns \<noteq> []"
  by (cases ns) simp_all

lemma wrr_step_inside:
  assumes "static_nodes ns" and "c < total_weight ns" and "q = [] \<and> c = 0 \<or> q = consumed c ns"
  shows "wrr_selectServer q ns = (Some (weighted_cycle ns ! c), consumed (Suc c) ns)"
proof -
  from assms(1) have d: "distinct (map node_id ns)" and sel: "\<forall>n\<in>set ns. selectable n"
    and pw: "positive_weights ns" by (simp_all add: static_nodes_def)
  from assms(2) have ne: "ns \<noteq> []" by (auto simp: total_weight_def)
  have u: "updateWeightedQueue ns q = consumed c ns"
  proof (cases "q = [] \<and> c = 0")
    case True
    with updateWeightedQueue_empty [OF d] consumed_0 [OF pw] show ?thesis by simp
  next
    case False
    with assms(3) have "q = consumed c ns" by simp
    with updateWeightedQueue_static [OF d server_consumed sel] show ?thesis by simp
  qed
  from wrr_on_queue [OF ne sel u consumed_nonempty [OF ne]]
    take_first_positive_consumed [OF pw assms(2)]
  show ?thesis by simp
qed

lemma wrr_step_reset:
  assumes "static_nodes ns" and "ns \<noteq> []"
  shows "wrr_selectServer (consumed (total_weight ns) ns) ns
           = (Some (weighted_cycle ns ! 0), consumed (Suc 0) ns)"
proof -
  from assms(1) have d: "distinct (map node_id ns)" and sel: "\<forall>n\<in>set ns. selectable n"
    and pw: "positive_weights ns" by (simp_all add: static_nodes_def)
  let ?q = "consumed (total_weight ns) ns"
  have u: "updateWeightedQueue ns ?q = ?q"
    by (rule updateWeightedQueue_static [OF d server_consumed sel])
  have none: "take_first_positive ?q = None"
    by (rule take_first_positive_exhausted [OF pw]) simp
  obtain n ms where ns: "ns = n # ms" using assms(2) by (cases ns) auto
  with pw have w: "1 \<le> weight n" by (simp add: positive_weights_Cons)
  have r: "reset_weights ?q = new_entry n # map new_entry ms"
    using reset_weights_consumed [of "total_weight ns" ns] ns by simp
  have first: "take_first_positive (new_entry n # map new_entry ms)
      = Some (n, (new_entry n)\<lparr>remainingWeight := remainingWeight (new_entry n) - 1\<rparr> # map new_entry ms)"
    using w by (simp add: new_entry_def)
  have "take_first_positive (consumed 0 ns) = Some (weighted_cycle ns ! 0, consumed (Suc 0) ns)"
    by (rule take_first_positive_consumed [OF pw total_weight_pos [OF pw assms(2)]])
  with first consumed_0 [OF pw] ns
  have e: "n = weighted_cycle ns ! 0"
    "(new_entry n)\<lparr>remainingWeight := remainingWeight (new_entry n) - 1\<rparr> # map new_entry ms
       = consumed (Suc 0) ns"
    by simp_all
  have "wrr_selectServer ?q ns
      = (Some (server (new_entry n)),
         (new_entry n)\<lparr>remainingWeight := remainingWeight (new_entry n) - 1\<rparr> # map new_entry ms)"
    using wrr_on_queue [OF assms(2) sel u consumed_nonempty [OF assms(2)]] none r by simp
  moreover have "server (new_entry n) = n" by (simp add: new_entry_def)
  ultimately show ?thesis using e by simp
qed

lemma wrr_step:
  assumes "static_nodes ns" and "ns \<noteq> []" and "c \<le> total_weight ns"
    and "q = [] \<and> c = 0 \<or> q = consumed c ns"
  shows "wrr_selectServer q ns
           = (Some (weighted_cycle ns ! (c mod total_weight ns)),
              consumed (Suc (c mod total_weight ns)) ns)"
proof (cases "c < total_weight ns")
  case True
  with wrr_step_inside [OF assms(1) True assms(4)] show ?thesis by simp
next
  case False
  with assms(3) have c: "c = total_weight ns" by simp
  from assms(1) have "positive_weights ns" by (simp add: static_nodes_def)
  from total_weight_pos [OF this assms(2)] c assms(4) have "q = consumed (total_weight ns) ns"
    by simp
  with wrr_step_reset [OF assms(1,2)] c show ?thesis by simp
qed

lemma selectServers_static:
  assumes "static_nodes ns" and "ns \<noteq> []" and "c \<le> total_weight ns"
    and "q = [] \<and> c = 0 \<or> q = consumed c ns"
  shows "selectServers (WeightedRoundRobinStrategy q) (replicate m ns)
           = map (\<lambda>i. Some (weighted_cycle ns ! ((c + i) mod total_weight ns))) [0..<m]"
  using assms(3,4)
proof (induction m arbitrary: c q)
  case 0
  show ?case by simp
next
  case (Suc m)
  let ?S = "total_weight ns"
  from assms(1) have "positive_weights ns" by (simp add: static_nodes_def)
  from total_weight_pos [OF this assms(2)] have S: "0 < ?S" .
  have step: "wrr_selectServer q ns
           = (Some (weighted_cycle ns ! (c mod ?S)), consumed (Suc (c mod ?S)) ns)"
    by (rule wrr_step [OF assms(1,2) Suc.prems])
  from S have le: "Suc (c mod ?S) \<le> ?S" by (simp add: Suc_leI)
  have IH: "selectServers (WeightedRoundRobinStrategy (consumed (Suc (c mod ?S)) ns)) (replicate m ns)
           = map (\<lambda>i. Some (weighted_cycle ns ! ((Suc (c mod ?S) + i) mod ?S))) [0..<m]"
    by (rule Suc.IH [OF le]) simp
  have m: "(Suc (c mod ?S) + i) mod ?S = (c + Suc i) mod ?S" for i
    by (metis add_Suc add_Suc_right mod_add_left_eq)
  have "[0..<Suc m] = 0 # map Suc [0..<m]"
    by (simp add: upt_conv_Cons map_Suc_upt del: upt_Suc)
  then have "map (\<lambda>i. Some (weighted_cycle ns ! ((c + i) mod ?S))) [0..<Suc m]
     = Some (weighted_cycle ns ! (c mod ?S))
       # map (\<lambda>i. Some (weighted_cycle ns ! ((c + Suc i) mod ?S))) [0..<m]"
    by (simp add: comp_def del: upt_Suc)
  with step IH m show ?case by simp
qed

lemma count_window_shift:
  assumes "0 < S"
  shows "count_list (map (\<lambda>i. f (i mod S)) [k..<k + S]) x
           = count_list (map (\<lambda>i. f (i mod S)) [0..<S]) x"
proof (induction k)
  case 0
  show ?case by simp
next
  case (Suc k)
  have a: "[k..<k + S] = k # [Suc k..<k + S]"
    using assms by (simp add: upt_conv_Cons)
  have b: "[Suc k..<Suc k + S] = [Suc k..<k + S] @ [k + S]"
    using assms by simp
  have "count_list (map (\<lambda>i. f (i mod S)) [Suc k..<Suc k + S]) x
      = count_list (map (\<lambda>i. f (i mod S)) [Suc k..<k + S]) x + (if f (k mod S) = x then 1 else 0)"
    unfolding b by simp
  also have "\<dots> = count_list (map (\<lambda>i. f (i mod S)) [k..<k + S]) x"
    unfolding a by simp
  finally show ?case using Suc.IH by simp
qed

lemma count_list_map_Some: "count_list (map Some xs) (Some x) = count_list xs x"
  by (induction xs) simp_all

lemma count_list_replicate: "count_list (replicate m y) x = (if y = x then m else 0)"
  by (induction m) auto

lemma set_weighted_cycle: "set (weighted_cycle ns) \<subseteq> set ns"
  by (induction ns) auto

lemma count_weighted_cycle:
  assumes "distinct ns" and "n \<in> set ns"
  shows "count_list (weighted_cycle ns) n = nat (weight n)"
  using assms
proof (induction ns)
  case Nil
  then show ?case by simp
next
  case (Cons m ms)
  show ?case
  proof (cases "m = n")
    case True
    with Cons.prems(1) have "n \<notin> set ms" by simp
    with set_weighted_cycle [of ms] have "n \<notin> set (weighted_cycle ms)" by blast
    then have "count_list (weighted_cycle ms) n = 0" by (simp add: count_list_0_iff)
    with True show ?thesis by (simp add: count_list_replicate)
  next
    case False
    with Cons show ?thesis by (simp add: count_list_replicate)
  qed
qed

lemma map_nth_mod:
  "map (\<lambda>i. xs ! (i mod length xs)) [0..<length xs] = xs"
proof -
  have "map (\<lambda>i. xs ! (i mod length xs)) [0..<length xs] = map (\<lambda>i. xs ! i) [0..<length xs]"
    by (rule map_cong) simp_all
  then show ?thesis by (simp add: map_nth)
qed

text \<open>
  C6, as stated, fails: with the healthy nodes \<open>Z\<close> (weight 0) and \<open>B\<close> (weight 1) the
  sum of the weights is 1, and the full cycle that consists of the second call selects
  \<open>Z\<close> once.
\<close>

theorem weight_zero_counterexample:
  "distinct (map node_id [nodeZ, nodeB]) \<and> selectable nodeZ \<and> selectable nodeB
   \<and> total_weight [nodeZ, nodeB] = 1
   \<and> wrr_window [nodeZ, nodeB] 1 = [Some nodeZ]
   \<and> count_list (wrr_window [nodeZ, nodeB] 1) (Some nodeZ) \<noteq> nat (weight nodeZ)"
  by code_simp

text \<open>
  C6, amended.  For a node list with distinct ids in which every node is healthy, below
  capacity and of weight at least 1, passed unchanged to every \<open>selectServer\<close> call of a
  freshly constructed weighted round-robin strategy, every window of
  \<open>total_weight\<close> consecutive calls selects each node exactly \<open>weight\<close> times.
\<close>

theorem weighted_round_robin_full_cycle:
  assumes "static_nodes ns" and "node \<in> set ns"
  shows "count_list (wrr_window ns k) (Some node) = nat (weight node)"
proof -
  let ?S = "total_weight ns"
  let ?cyc = "weighted_cycle ns"
  from assms(1) have d: "distinct (map node_id ns)" and pw: "positive_weights ns"
    by (simp_all add: static_nodes_def)
  from assms(2) have ne: "ns \<noteq> []" by auto
  from total_weight_pos [OF pw ne] have S: "0 < ?S" .
  have len: "length ?cyc = ?S" by (rule length_weighted_cycle [OF pw])
  have run: "selectServers (WeightedRoundRobinStrategy []) (replicate (k + ?S) ns)
           = map (\<lambda>i. Some (?cyc ! (i mod ?S))) [0..<k + ?S]"
    using selectServers_static [OF assms(1) ne, of 0 "[]" "k + ?S"] by simp
  have "wrr_window ns k = map (\<lambda>i. Some (?cyc ! (i mod ?S))) [k..<k + ?S]"
    unfolding wrr_window_def run by (simp add: drop_map)
  then have "count_list (wrr_window ns k) (Some node)
      = count_list (map (\<lambda>i. Some (?cyc ! (i mod ?S))) [0..<?S]) (Some node)"
    using count_window_shift [OF S, of "\<lambda>j. Some (?cyc ! j)" k "Some node"] by simp
  also have "map (\<lambda>i. Some (?cyc ! (i mod ?S))) [0..<?S] = map Some ?cyc"
  proof -
    have "map Some (map (\<lambda>i. ?cyc ! (i mod ?S)) [0..<?S]) = map Some ?cyc"
      using map_nth_mod [of ?cyc] unfolding len by (rule arg_cong)
    then show ?thesis by (simp add: comp_def)
  qed
  also have "count_list (map Some ?cyc) (Some node) = count_list ?cyc node"
    by (rule count_list_map_Some)
  also have "\<dots> = nat (weight node)"
    using d assms(2) by (intro count_weighted_cycle) (simp_all add: distinct_map)
  finally show ?thesis .
qed

text \<open>
  The theorem at the nodes \<open>A\<close> (weight 2) and \<open>B\<close> (weight 1): the window of three calls
  that starts at the second call selects \<open>A\<close>, \<open>B\<close>, \<open>A\<close>.
\<close>

theorem weighted_round_robin_full_cycle_witness:
  "static_nodes [nodeA, nodeB] \<and> nodeA \<in> set [nodeA, nodeB]
   \<and> wrr_window [nodeA, nodeB] 1 = [Some nodeA, Some nodeB, Some nodeA]
   \<and> count_list (wrr_window [nodeA, nodeB] 1) (Some nodeA) = 2"
proof -
  have s: "static_nodes [nodeA, nodeB]" by code_simp
  have m: "nodeA \<in> set [nodeA, nodeB]" by simp
  have w: "wrr_window [nodeA, nodeB] 1 = [Some nodeA, Some nodeB, Some nodeA]" by code_simp
  from weighted_round_robin_full_cycle [OF s m, of 1]
  have "count_list (wrr_window [nodeA, nodeB] 1) (Some nodeA) = 2"
    by (simp add: nodeA_def)
  with s m w show ?thesis by simp
qed

section \<open>Properties of the load balancer\<close>

subsection \<open>Unknown ids\<close>

text \<open>
  C9, as stated, fails: \<open>recordFailure\<close> for a server id with no breaker creates a breaker
  with one failure, \<open>assignStickySession\<close> for a session id with no mapping creates one,
  and \<open>blacklistClient\<close> and \<open>checkLimit\<close> for a client id with no entry create an entry.
\<close>

theorem unknown_id_creates_counterexample:
  "circuitBreakers (newLoadBalancer None) ''A'' = None
   \<and> circuitBreakers (recordFailure ''A'' 1000 (newLoadBalancer None)) ''A''
       = Some \<lparr> failures = 1, lastFailureTime = 1000, state = Closed \<rparr>
   \<and> stickySessionMap (newLoadBalancer None) ''s1'' = None
   \<and> stickySessionMap (assignStickySession ''s1'' ''A'' (newLoadBalancer None)) ''s1'' = Some ''A''
   \<and> getClientStats ''x'' Map.empty = None
   \<and> map_option blocked (getClientStats ''x'' (blacklistClient ''x'' None 1000 Map.empty)) = Some True
   \<and> map_option requests (getClientStats ''x'' (snd (checkLimit cfg3 ''x'' True 1000 Map.empty)))
       = Some [1000]"
  by (simp add: newLoadBalancer_def recordFailure_def breakerOf_def assignStickySession_def
        getClientStats_def blacklistClient_def rl_defs cfg3_def mkConfig_def)

text \<open>
  C9, amended.  The operations that look an id up without creating it are no-ops on an
  unknown id and return a boolean or optional result.  For a server id that is not
  registered, \<open>removeServer\<close> returns false and \<open>updateServerStats\<close>,
  \<open>incrementConnection\<close> and \<open>decrementConnection\<close> return, each leaving the whole state
  (registry, circuit-breaker table, sticky-session map, strategy, emitted events)
  unchanged, and \<open>getServerById\<close> returns none.  For a session id with no sticky mapping,
  \<open>getStickyServer\<close> returns none and \<open>removeStickySession\<close> returns, both leaving the state
  unchanged.  For a server id with no breaker, \<open>isCircuitOpen\<close> returns false and
  \<open>recordSuccess\<close> returns, both leaving the state unchanged.  For a client id with no
  entry, \<open>isBlocked\<close> returns false, \<open>getClientStats\<close> returns none and \<open>whitelistClient\<close>
  leaves the client map unchanged.
\<close>

theorem unknown_id_noop:
  "(map_of (nodes lb) serverId = None \<longrightarrow>
      removeServer serverId lb = (False, lb)
      \<and> updateServerStats serverId stats lb = lb
      \<and> incrementConnection serverId lb = lb
      \<and> decrementConnection serverId lb = lb
      \<and> getServerById serverId lb = None)
   \<and> (stickySessionMap lb sessionId = None \<longrightarrow>
      getStickyServer sessionId lb = (None, lb)
      \<and> removeStickySession sessionId lb = lb)
   \<and> (circuitBreakers lb breakerId = None \<longrightarrow>
      isCircuitOpen breakerId now lb = (False, lb)
      \<and> recordSuccess breakerId lb = lb)
   \<and> (cs clientId = None \<longrightarrow>
      isBlocked clientId now cs = False
      \<and> getClientStats clientId cs = None
      \<and> whitelistClient clientId cs = cs)"
proof -
  have a: "map_of (nodes lb) serverId = None \<longrightarrow>
      removeServer serverId lb = (False, lb)
      \<and> updateServerStats serverId stats lb = lb
      \<and> incrementConnection serverId lb = lb
      \<and> decrementConnection serverId lb = lb
      \<and> getServerById serverId lb = None"
    by (simp add: removeServer_def updateServerStats_def incrementConnection_def
          decrementConnection_def getServerById_def)
  have b: "stickySessionMap lb sessionId = None \<longrightarrow>
      getStickyServer sessionId lb = (None, lb)
      \<and> removeStickySession sessionId lb = lb"
  proof
    assume n: "stickySessionMap lb sessionId = None"
    then have "(stickySessionMap lb)(sessionId := None) = stickySessionMap lb"
      by (simp add: fun_upd_idem)
    then have "removeStickySession sessionId lb = lb"
      by (simp add: removeStickySession_def)
    moreover from n have "getStickyServer sessionId lb = (None, lb)"
      by (simp add: getStickyServer_def)
    ultimately show "getStickyServer sessionId lb = (None, lb)
      \<and> removeStickySession sessionId lb = lb" by simp
  qed
  have c: "circuitBreakers lb breakerId = None \<longrightarrow>
      isCircuitOpen breakerId now lb = (False, lb)
      \<and> recordSuccess breakerId lb = lb"
    by (simp add: isCircuitOpen_def recordSuccess_def)
  have d: "cs clientId = None \<longrightarrow>
      isBlocked clientId now cs = False
      \<and> getClientStats clientId cs = None
      \<and> whitelistClient clientId cs = cs"
    by (simp add: isBlocked_def getClientStats_def whitelistClient_def)
  from a b c d show ?thesis by (intro conjI)
qed

text \<open>
  The theorem at the balancer that holds only \<open>A\<close> and has no sticky session and no
  breaker, for the server id \<open>B\<close> and the session \<open>s1\<close>, and at the empty client map.
\<close>

theorem unknown_id_noop_witness:
  "map_of (nodes lbA) ''B'' = None
   \<and> removeServer ''B'' lbA = (False, lbA)
   \<and> updateServerStats ''B'' negativeStats lbA = lbA
   \<and> incrementConnection ''B'' lbA = lbA
   \<and> decrementConnection ''B'' lbA = lbA
   \<and> stickySessionMap lbA ''s1'' = None
   \<and> getStickyServer ''s1'' lbA = (None, lbA)
   \<and> removeStickySession ''s1'' lbA = lbA
   \<and> circuitBreakers lbA ''B'' = None
   \<and> isCircuitOpen ''B'' 1000 lbA = (False, lbA)
   \<and> recordSuccess ''B'' lbA = lbA
   \<and> isBlocked ''x'' 1000 Map.empty = False
   \<and> whitelistClient ''x'' Map.empty = Map.empty"
proof -
  have h1: "map_of (nodes lbA) ''B'' = None" by (simp add: lbA_def)
  have h2: "stickySessionMap lbA ''s1'' = None" by (simp add: lbA_def)
  have h3: "circuitBreakers lbA ''B'' = None" by (simp add: lbA_def)
  have h4: "(Map.empty :: clients) ''x'' = None" by simp
  note th = unknown_id_noop [where lb = lbA and serverId = "''B''" and stats = negativeStats
      and sessionId = "''s1''" and breakerId = "''B''" and now = 1000
      and cs = Map.empty and clientId = "''x''"]
  from th h1 have r1: "removeServer ''B'' lbA = (False, lbA)
      \<and> updateServerStats ''B'' negativeStats lbA = lbA
      \<and> incrementConnection ''B'' lbA = lbA
      \<and> decrementConnection ''B'' lbA = lbA" by simp
  from th h2 have r2: "getStickyServer ''s1'' lbA = (None, lbA)
      \<and> removeStickySession ''s1'' lbA = lbA" by simp
  from th h3 have r3: "isCircuitOpen ''B'' 1000 lbA = (False, lbA)
      \<and> recordSuccess ''B'' lbA = lbA" by simp
  from th h4 have r4: "isBlocked ''x'' 1000 Map.empty = False
      \<and> whitelistClient ''x'' Map.empty = Map.empty" by simp
  from h1 r1 h2 r2 h3 r3 r4 show ?thesis by simp
qed

subsection \<open>Connection counts\<close>

lemma all_update:
  "\<forall>n \<in> set (map snd al). P n \<Longrightarrow> P v \<Longrightarrow> \<forall>n \<in> set (map snd (AList.update k v al)). P n"
  by (induction al) auto

lemma all_delete:
  "\<forall>n \<in> set (map snd al). P n \<Longrightarrow> \<forall>n \<in> set (map snd (AList.delete k al)). P n"
  by (induction al) auto

lemma all_lookup:
  "\<forall>n \<in> set (map snd al). P n \<Longrightarrow> map_of al k = Some v \<Longrightarrow> P v"
  by (induction al) (auto split: if_splits)

lemma nodes_emit: "nodes (emit e lb) = nodes lb"
  by (simp add: emit_def)

lemma nonneg_updateI:
  assumes "connections_nonneg lb" and "0 \<le> activeConnections v"
    and "nodes lb' = AList.update k v (nodes lb)"
  shows "connections_nonneg lb'"
  unfolding connections_nonneg_def assms(3)
  using assms(1) [unfolded connections_nonneg_def] assms(2) by (rule all_update)

lemma nonneg_lookup:
  assumes "connections_nonneg lb" and "map_of (nodes lb) k = Some v"
  shows "0 \<le> activeConnections v"
  using assms(1) [unfolded connections_nonneg_def] assms(2) by (rule all_lookup)

lemma nonneg_same_nodes:
  assumes "connections_nonneg lb" and "nodes lb' = nodes lb"
  shows "connections_nonneg lb'"
  using assms(1) unfolding connections_nonneg_def assms(2) .

lemma addServer_nonneg:
  assumes "connections_nonneg lb"
  shows "connections_nonneg (addServer config lb)"
proof (rule nonneg_updateI [OF assms])
  show "nodes (addServer config lb)
          = AList.update (node_id config)
              (config\<lparr>isHealthy := False, lastHealthCheck := 0, activeConnections := 0\<rparr>) (nodes lb)"
    by (simp add: addServer_def Let_def nodes_emit)
qed simp

lemma removeServer_nonneg:
  assumes "connections_nonneg lb"
  shows "connections_nonneg (snd (removeServer serverId lb))"
proof (cases "map_of (nodes lb) serverId")
  case None
  with assms show ?thesis by (simp add: removeServer_def)
next
  case (Some node)
  then have del: "nodes (snd (removeServer serverId lb)) = AList.delete serverId (nodes lb)"
    by (simp add: removeServer_def nodes_emit)
  have "\<forall>n \<in> set (map snd (AList.delete serverId (nodes lb))). 0 \<le> activeConnections n"
    using assms [unfolded connections_nonneg_def] by (rule all_delete)
  then show ?thesis
    unfolding connections_nonneg_def del .
qed

lemma updateServerStats_nonneg:
  assumes "connections_nonneg lb"
    and "case stats_activeConnections stats of None \<Rightarrow> True | Some v \<Rightarrow> 0 \<le> v"
  shows "connections_nonneg (updateServerStats serverId stats lb)"
proof (cases "map_of (nodes lb) serverId")
  case None
  with assms show ?thesis by (simp add: updateServerStats_def)
next
  case (Some node)
  with assms(1) have "0 \<le> activeConnections node" by (rule nonneg_lookup)
  with assms(2) have "0 \<le> activeConnections (assign_stats node stats)"
    by (cases "stats_activeConnections stats") (simp_all add: assign_stats_def)
  moreover have "nodes (updateServerStats serverId stats lb)
                   = AList.update serverId (assign_stats node stats) (nodes lb)"
    using Some by (simp add: updateServerStats_def Let_def nodes_emit)
  ultimately show ?thesis by (rule nonneg_updateI [OF assms(1)])
qed

lemma incrementConnection_nonneg:
  assumes "connections_nonneg lb"
  shows "connections_nonneg (incrementConnection serverId lb)"
proof (cases "map_of (nodes lb) serverId")
  case None
  with assms show ?thesis by (simp add: incrementConnection_def)
next
  case (Some node)
  with assms have "0 \<le> activeConnections node" by (rule nonneg_lookup)
  then have "0 \<le> activeConnections (node\<lparr>activeConnections := activeConnections node + 1\<rparr>)"
    by simp
  moreover have "nodes (incrementConnection serverId lb)
      = AList.update serverId (node\<lparr>activeConnections := activeConnections node + 1\<rparr>) (nodes lb)"
    using Some by (simp add: incrementConnection_def Let_def nodes_emit)
  ultimately show ?thesis by (rule nonneg_updateI [OF assms])
qed

lemma decrementConnection_nonneg:
  assumes "connections_nonneg lb"
  shows "connections_nonneg (decrementConnection serverId lb)"
proof (cases "map_of (nodes lb) serverId")
  case None
  with assms show ?thesis by (simp add: decrementConnection_def)
next
  case (Some node)
  have "0 \<le> activeConnections (node\<lparr>activeConnections := max 0 (activeConnections node - 1)\<rparr>)"
    by simp
  moreover have "nodes (decrementConnection serverId lb)
      = AList.update serverId (node\<lparr>activeConnections := max 0 (activeConnections node - 1)\<rparr>) (nodes lb)"
    using Some by (simp add: decrementConnection_def Let_def nodes_emit)
  ultimately show ?thesis by (rule nonneg_updateI [OF assms])
qed

lemma checkServerHealth_nodes:
  assumes "map_of (nodes lb) serverId = Some node"
  shows "nodes (checkServerHealth serverId outcome startTime now lb)
      = AList.update serverId
          (node\<lparr>isHealthy := (case outcome of None \<Rightarrow> False | Some ok \<Rightarrow> ok), lastHealthCheck := now,
                 responseTime := of_int (now - startTime)\<rparr>) (nodes lb)"
  using assms by (cases outcome) (simp_all add: checkServerHealth_def Let_def nodes_emit)

lemma checkServerHealth_nonneg:
  assumes "connections_nonneg lb"
  shows "connections_nonneg (checkServerHealth serverId outcome startTime now lb)"
proof (cases "map_of (nodes lb) serverId")
  case None
  with assms show ?thesis by (simp add: checkServerHealth_def)
next
  case (Some node)
  with assms have "0 \<le> activeConnections node" by (rule nonneg_lookup)
  then have "0 \<le> activeConnections (node\<lparr>isHealthy := (case outcome of None \<Rightarrow> False | Some ok \<Rightarrow> ok),
                 lastHealthCheck := now, responseTime := of_int (now - startTime)\<rparr>)"
    by simp
  then show ?thesis
    using checkServerHealth_nodes [OF Some] by (rule nonneg_updateI [OF assms])
qed

lemma lb_selectServer_nodes: "nodes (snd (lb_selectServer lb)) = nodes lb"
  by (simp add: lb_selectServer_def Let_def nodes_emit split: prod.splits option.splits)

lemma getStickyServer_nodes: "nodes (snd (getStickyServer sessionId lb)) = nodes lb"
  by (simp add: getStickyServer_def split: option.splits)

lemma isCircuitOpen_nodes: "nodes (snd (isCircuitOpen serverId now lb)) = nodes lb"
  by (simp add: isCircuitOpen_def Let_def split: option.splits)

lemma recordFailure_nodes: "nodes (recordFailure serverId now lb) = nodes lb"
  by (simp add: recordFailure_def Let_def nodes_emit)

lemma recordSuccess_nodes: "nodes (recordSuccess serverId lb) = nodes lb"
  by (simp add: recordSuccess_def nodes_emit split: option.splits)

lemma apply_op_nonneg:
  assumes "connections_nonneg lb" and "nonneg_stats op"
  shows "connections_nonneg (apply_op op lb)"
proof (cases op)
  case (AddServer config)
  with assms show ?thesis by (simp add: addServer_nonneg)
next
  case (RemoveServer serverId)
  with assms show ?thesis by (simp add: removeServer_nonneg)
next
  case (UpdateServerStats serverId stats)
  with assms show ?thesis by (simp add: updateServerStats_nonneg)
next
  case SelectServer
  with assms(1) show ?thesis by (simp add: nonneg_same_nodes [OF _ lb_selectServer_nodes])
next
  case (IncrementConnection serverId)
  with assms show ?thesis by (simp add: incrementConnection_nonneg)
next
  case (DecrementConnection serverId)
  with assms show ?thesis by (simp add: decrementConnection_nonneg)
next
  case (SetStrategy s)
  have "nodes (setStrategy s lb) = nodes lb" by (simp add: setStrategy_def nodes_emit)
  with assms(1) SetStrategy show ?thesis by (simp add: nonneg_same_nodes)
next
  case (CheckServerHealth serverId outcome startTime now)
  with assms show ?thesis by (simp add: checkServerHealth_nonneg)
next
  case (AssignStickySession sessionId serverId)
  have "nodes (assignStickySession sessionId serverId lb) = nodes lb"
    by (simp add: assignStickySession_def)
  with assms(1) AssignStickySession show ?thesis by (simp add: nonneg_same_nodes)
next
  case (GetStickyServer sessionId)
  with assms(1) show ?thesis by (simp add: nonneg_same_nodes [OF _ getStickyServer_nodes])
next
  case (RemoveStickySession sessionId)
  have "nodes (removeStickySession sessionId lb) = nodes lb"
    by (simp add: removeStickySession_def)
  with assms(1) RemoveStickySession show ?thesis by (simp add: nonneg_same_nodes)
next
  case (IsCircuitOpen serverId now)
  with assms(1) show ?thesis by (simp add: nonneg_same_nodes [OF _ isCircuitOpen_nodes])
next
  case (RecordFailure serverId now)
  with assms(1) show ?thesis by (simp add: nonneg_same_nodes [OF _ recordFailure_nodes])
next
  case (RecordSuccess serverId)
  with assms(1) show ?thesis by (simp add: nonneg_same_nodes [OF _ recordSuccess_nodes])
qed

lemma apply_ops_nonneg:
  "connections_nonneg lb \<Longrightarrow> \<forall>op\<in>set ops. nonneg_stats op \<Longrightarrow> connections_nonneg (apply_ops ops lb)"
  by (induction ops arbitrary: lb) (simp_all add: apply_op_nonneg)

lemma map_of_update_same: "map_of (AList.update k v al) k = Some v"
  by (simp add: update_conv')

text \<open>
  C7, as stated, fails: \<open>updateServerStats\<close> with \<open>activeConnections = -1\<close> makes the
  count of the registered node \<open>A\<close> negative.
\<close>

theorem updateServerStats_negative_counterexample:
  "connections_nonneg lbA \<and> \<not> connections_nonneg (updateServerStats ''A'' negativeStats lbA)"
  by code_simp

text \<open>
  C7, amended.  A new balancer has no negative connection count; every sequence of
  operations in which no stats update carries a negative \<open>activeConnections\<close> preserves
  \<open>activeConnections >= 0\<close> for every registered node; and \<open>decrementConnection\<close> sets
  the count of a registered node to \<open>max(0, activeConnections - 1)\<close>.
\<close>

theorem activeConnections_nonneg_invariant:
  "(connections_nonneg (newLoadBalancer strategy_arg))
   \<and> (connections_nonneg lb \<and> (\<forall>op\<in>set ops. nonneg_stats op) \<longrightarrow> connections_nonneg (apply_ops ops lb))
   \<and> (\<forall>node. map_of (nodes lb) serverId = Some node \<longrightarrow>
         map_of (nodes (decrementConnection serverId lb)) serverId
           = Some (node\<lparr>activeConnections := max 0 (activeConnections node - 1)\<rparr>))"
proof -
  have a: "connections_nonneg (newLoadBalancer strategy_arg)"
    by (simp add: connections_nonneg_def newLoadBalancer_def)
  have b: "connections_nonneg lb \<and> (\<forall>op\<in>set ops. nonneg_stats op) \<longrightarrow> connections_nonneg (apply_ops ops lb)"
    by (simp add: apply_ops_nonneg)
  have c: "\<forall>node. map_of (nodes lb) serverId = Some node \<longrightarrow>
         map_of (nodes (decrementConnection serverId lb)) serverId
           = Some (node\<lparr>activeConnections := max 0 (activeConnections node - 1)\<rparr>)"
    by (simp add: decrementConnection_def Let_def map_of_update_same nodes_emit)
  from a b c show ?thesis by simp
qed

text \<open>
  The theorem at the balancer that holds \<open>A\<close> with no connection, for a sequence of
  operations that decrements \<open>B\<close> twice after one increment and decrements \<open>A\<close>.
\<close>

theorem activeConnections_nonneg_invariant_witness:
  "connections_nonneg lbA \<and> list_all nonneg_stats someOperations
   \<and> connections_nonneg (apply_ops someOperations lbA)
   \<and> map_of (nodes lbA) ''A'' = Some nodeA
   \<and> map_of (nodes (decrementConnection ''A'' lbA)) ''A'' = Some (nodeA\<lparr>activeConnections := 0\<rparr>)"
proof -
  have a: "connections_nonneg lbA" by code_simp
  have b: "list_all nonneg_stats someOperations" by code_simp
  have c: "map_of (nodes lbA) ''A'' = Some nodeA" by (simp add: lbA_def)
  note th = activeConnections_nonneg_invariant [of None lbA someOperations "''A''"]
  from th a b have d: "connections_nonneg (apply_ops someOperations lbA)"
    by (simp add: list_all_iff)
  from th c have "map_of (nodes (decrementConnection ''A'' lbA)) ''A''
      = Some (nodeA\<lparr>activeConnections := max 0 (activeConnections nodeA - 1)\<rparr>)" by simp
  then have e: "map_of (nodes (decrementConnection ''A'' lbA)) ''A'' = Some (nodeA\<lparr>activeConnections := 0\<rparr>)"
    by (simp add: nodeA_def)
  from a b c d e show ?thesis by simp
qed

subsection \<open>Sticky sessions\<close>

text \<open>
  C8, as stated, fails: the session \<open>s1\<close> is bound to the registered, healthy node
  whose id is the empty string, and \<open>getStickyServer\<close> returns none and keeps the
  mapping.
\<close>

theorem getStickyServer_empty_id_counterexample:
  "stickySessionMap lbE ''s1'' = Some [] \<and> map_of (nodes lbE) [] = Some nodeE
   \<and> isHealthy nodeE \<and> activeConnections nodeE < maxConnections nodeE
   \<and> getStickyServer ''s1'' lbE = (None, lbE)
   \<and> stickySessionMap (snd (getStickyServer ''s1'' lbE)) ''s1'' = Some []"
  by (simp add: getStickyServer_def lbE_def nodeE_def)

text \<open>
  C8, amended.  For every session id mapped to a non-empty server id,
  \<open>getStickyServer\<close> returns the node \<open>n\<close> if and only if \<open>n\<close> is the registered node of that
  id and is healthy and below capacity, and then changes nothing; otherwise it returns
  none, deletes the session's mapping and nothing else, and a second call returns none
  again.
\<close>

theorem getStickyServer_mapped:
  assumes "stickySessionMap lb sessionId = Some serverId" and "serverId \<noteq> []"
  shows "(\<forall>node. fst (getStickyServer sessionId lb) = Some node \<longleftrightarrow>
            map_of (nodes lb) serverId = Some node \<and> isHealthy node
            \<and> activeConnections node < maxConnections node)
       \<and> (fst (getStickyServer sessionId lb) \<noteq> None \<longrightarrow> snd (getStickyServer sessionId lb) = lb)
       \<and> (fst (getStickyServer sessionId lb) = None \<longrightarrow>
            snd (getStickyServer sessionId lb)
              = lb\<lparr>stickySessionMap := (stickySessionMap lb)(sessionId := None)\<rparr>
            \<and> getStickyServer sessionId (snd (getStickyServer sessionId lb))
              = (None, snd (getStickyServer sessionId lb)))"
proof (cases "map_of (nodes lb) serverId")
  case None
  with assms show ?thesis by (simp add: getStickyServer_def)
next
  case (Some node)
  show ?thesis
  proof (cases "isHealthy node \<and> activeConnections node < maxConnections node")
    case True
    with Some assms have "getStickyServer sessionId lb = (Some node, lb)"
      by (simp add: getStickyServer_def)
    with Some True show ?thesis by auto
  next
    case False
    with Some assms have g: "getStickyServer sessionId lb
        = (None, lb\<lparr>stickySessionMap := (stickySessionMap lb)(sessionId := None)\<rparr>)"
      by (auto simp: getStickyServer_def)
    have "getStickyServer sessionId (lb\<lparr>stickySessionMap := (stickySessionMap lb)(sessionId := None)\<rparr>)
        = (None, lb\<lparr>stickySessionMap := (stickySessionMap lb)(sessionId := None)\<rparr>)"
      by (simp add: getStickyServer_def)
    with g Some False show ?thesis by auto
  qed
qed

text \<open>
  The theorem at the session \<open>s1\<close> bound to \<open>A\<close>: while \<open>A\<close> is healthy the call returns
  \<open>A\<close> and changes nothing; after a failed probe of \<open>A\<close> it returns none and removes the
  mapping, and the next call returns none.
\<close>

theorem getStickyServer_mapped_witness:
  "stickySessionMap lbSticky ''s1'' = Some ''A'' \<and> ''A'' \<noteq> []
   \<and> fst (getStickyServer ''s1'' lbSticky) = Some nodeA
   \<and> snd (getStickyServer ''s1'' lbSticky) = lbSticky
   \<and> stickySessionMap lbStickyUnhealthy ''s1'' = Some ''A''
   \<and> fst (getStickyServer ''s1'' lbStickyUnhealthy) = None
   \<and> stickySessionMap (snd (getStickyServer ''s1'' lbStickyUnhealthy)) ''s1'' = None
   \<and> fst (getStickyServer ''s1'' (snd (getStickyServer ''s1'' lbStickyUnhealthy))) = None"
proof -
  have h1: "stickySessionMap lbSticky ''s1'' = Some ''A''"
    by (simp add: lbSticky_def assignStickySession_def)
  have h2: "''A'' \<noteq> []" by simp
  have n1: "map_of (nodes lbSticky) ''A'' = Some nodeA"
    by (simp add: lbSticky_def assignStickySession_def lbA_def)
  have sel: "isHealthy nodeA \<and> activeConnections nodeA < maxConnections nodeA"
    by (simp add: nodeA_def)
  note t1 = getStickyServer_mapped [OF h1 h2]
  from t1 n1 sel have r1: "fst (getStickyServer ''s1'' lbSticky) = Some nodeA" by simp
  with t1 have r2: "snd (getStickyServer ''s1'' lbSticky) = lbSticky" by simp
  have h3: "stickySessionMap lbStickyUnhealthy ''s1'' = Some ''A''"
    by (simp add: lbStickyUnhealthy_def checkServerHealth_def lbSticky_def assignStickySession_def
          lbA_def emit_def Let_def)
  have n2: "map_of (nodes lbStickyUnhealthy) ''A''
      = Some (nodeA\<lparr>isHealthy := False, lastHealthCheck := 110, responseTime := 10\<rparr>)"
    by (simp add: lbStickyUnhealthy_def checkServerHealth_def lbSticky_def assignStickySession_def
          lbA_def emit_def Let_def nodeA_def)
  note t2 = getStickyServer_mapped [OF h3 h2]
  have r3: "fst (getStickyServer ''s1'' lbStickyUnhealthy) = None"
  proof (cases "fst (getStickyServer ''s1'' lbStickyUnhealthy)")
    case None
    then show ?thesis .
  next
    case (Some node)
    from t2 have "fst (getStickyServer ''s1'' lbStickyUnhealthy) = Some node \<longleftrightarrow>
            map_of (nodes lbStickyUnhealthy) ''A'' = Some node \<and> isHealthy node
            \<and> activeConnections node < maxConnections node"
      by (rule conjunct1 [THEN spec])
    with Some n2 have "isHealthy (nodeA\<lparr>isHealthy := False, lastHealthCheck := 110, responseTime := 10\<rparr>)"
      by auto
    then show ?thesis by simp
  qed
  from t2 have "fst (getStickyServer ''s1'' lbStickyUnhealthy) = None \<longrightarrow>
            snd (getStickyServer ''s1'' lbStickyUnhealthy)
              = lbStickyUnhealthy\<lparr>stickySessionMap := (stickySessionMap lbStickyUnhealthy)(''s1'' := None)\<rparr>
            \<and> getStickyServer ''s1'' (snd (getStickyServer ''s1'' lbStickyUnhealthy))
              = (None, snd (getStickyServer ''s1'' lbStickyUnhealthy))"
    by (rule conjunct2 [THEN conjunct2])
  then have k: "snd (getStickyServer ''s1'' lbStickyUnhealthy)
              = lbStickyUnhealthy\<lparr>stickySessionMap := (stickySessionMap lbStickyUnhealthy)(''s1'' := None)\<rparr>
            \<and> getStickyServer ''s1'' (snd (getStickyServer ''s1'' lbStickyUnhealthy))
              = (None, snd (getStickyServer ''s1'' lbStickyUnhealthy))"
    using r3 by (rule mp)
  have r4: "stickySessionMap (snd (getStickyServer ''s1'' lbStickyUnhealthy)) ''s1'' = None"
    by (simp add: conjunct1 [OF k])
  have r5: "fst (getStickyServer ''s1'' (snd (getStickyServer ''s1'' lbStickyUnhealthy))) = None"
    by (simp only: conjunct2 [OF k] fst_conv)
  from h1 h2 r1 r2 h3 r3 r4 r5 show ?thesis by simp
qed

subsection \<open>Circuit breaker\<close>

lemma circuitBreakers_emit: "circuitBreakers (emit e lb) = circuitBreakers lb"
  by (simp add: emit_def)

lemma recordFailure_breaker:
  "circuitBreakers (recordFailure serverId now lb) serverId
     = Some \<lparr> failures = failures (breakerOf serverId lb) + 1, lastFailureTime = now,
              state = (if failures (breakerOf serverId lb) + 1 \<ge> 5 then Open
                       else state (breakerOf serverId lb)) \<rparr>"
  by (simp add: recordFailure_def Let_def circuitBreakers_emit)

lemma breakerOf_recordFailure:
  "breakerOf serverId (recordFailure serverId now lb)
     = \<lparr> failures = failures (breakerOf serverId lb) + 1, lastFailureTime = now,
              state = (if failures (breakerOf serverId lb) + 1 \<ge> 5 then Open
                       else state (breakerOf serverId lb)) \<rparr>"
  unfolding breakerOf_def [of serverId "recordFailure serverId now lb"]
  by (simp add: recordFailure_breaker)

lemma recordFailures_breaker:
  "nows \<noteq> [] \<Longrightarrow>
   breakerOf serverId (recordFailures serverId nows lb)
     = \<lparr> failures = failures (breakerOf serverId lb) + length nows, lastFailureTime = last nows,
              state = (if failures (breakerOf serverId lb) + length nows \<ge> 5 then Open
                       else state (breakerOf serverId lb)) \<rparr>"
proof (induction nows arbitrary: lb)
  case Nil
  then show ?case by simp
next
  case (Cons now nows)
  show ?case
  proof (cases "nows = []")
    case True
    then show ?thesis by (simp add: breakerOf_recordFailure)
  next
    case False
    from Cons.IH [OF False, of "recordFailure serverId now lb"]
    show ?thesis using False by (simp add: breakerOf_recordFailure)
  qed
qed

lemma recordFailures_defined:
  "nows \<noteq> [] \<Longrightarrow> circuitBreakers (recordFailures serverId nows lb) serverId \<noteq> None"
proof (induction nows arbitrary: lb)
  case Nil
  then show ?case by simp
next
  case (Cons now nows)
  show ?case
  proof (cases "nows = []")
    case True
    then show ?thesis by (simp add: recordFailure_breaker)
  next
    case False
    from Cons.IH [OF False] show ?thesis by simp
  qed
qed

lemma breakerState_breakerOf:
  "circuitBreakers lb serverId \<noteq> None \<Longrightarrow> breakerState serverId lb = Some (state (breakerOf serverId lb))"
  by (auto simp: breakerState_def breakerOf_def)

lemma recordFailures_state:
  assumes "nows \<noteq> []"
  shows "breakerState serverId (recordFailures serverId nows lb)
           = Some (if failures (breakerOf serverId lb) + length nows \<ge> 5 then Open
                   else state (breakerOf serverId lb))"
  using breakerState_breakerOf [OF recordFailures_defined [OF assms]]
  by (simp add: recordFailures_breaker [OF assms])

text \<open>
  C3, as stated, fails: after five failures and the \<open>isCircuitOpen\<close> check made 65
  seconds later the breaker of \<open>A\<close> is half-open, and one more recorded failure leaves it
  half-open.
\<close>

theorem half_open_failure_counterexample:
  "breakerState ''A'' lbHalfOpen = Some HalfOpen
   \<and> breakerState ''A'' (recordFailure ''A'' 70001 lbHalfOpen) = Some HalfOpen"
  by code_simp

text \<open>
  C3, amended.  A breaker that is closed with failure count 0 (or absent) is closed after
  fewer than five recorded failures and open after the fifth; \<open>isCircuitOpen\<close> on an open
  breaker returns true and changes nothing until more than 60000 ms have passed since the
  last recorded failure, and then returns false and makes the breaker half-open with
  failure count 0; \<open>recordSuccess\<close> on a half-open breaker makes it closed with failure
  count 0; failures recorded on a half-open breaker add to its count, and it is open
  again exactly when the count has reached 5, half-open otherwise.
\<close>

theorem circuit_breaker_state_machine:
  "(state (breakerOf serverId lb) = Closed \<and> failures (breakerOf serverId lb) = 0 \<and> nows \<noteq> [] \<longrightarrow>
      breakerState serverId (recordFailures serverId nows lb)
        = Some (if length nows \<ge> 5 then Open else Closed))
   \<and> (circuitBreakers lb serverId = Some b \<and> state b = Open \<longrightarrow>
        isCircuitOpen serverId now lb
          = (if now - lastFailureTime b > 60000
             then (False, lb\<lparr>circuitBreakers := (circuitBreakers lb)
                                (serverId \<mapsto> b\<lparr>state := HalfOpen, failures := 0\<rparr>)\<rparr>)
             else (True, lb)))
   \<and> (circuitBreakers lb serverId = Some b \<and> state b = HalfOpen \<longrightarrow>
        circuitBreakers (recordSuccess serverId lb) serverId
          = Some (b\<lparr>state := Closed, failures := 0\<rparr>))
   \<and> (circuitBreakers lb serverId = Some b \<and> state b = HalfOpen \<and> nows \<noteq> [] \<longrightarrow>
        breakerState serverId (recordFailures serverId nows lb)
          = Some (if failures b + length nows \<ge> 5 then Open else HalfOpen))"
proof -
  have c1: "state (breakerOf serverId lb) = Closed \<and> failures (breakerOf serverId lb) = 0 \<and> nows \<noteq> [] \<longrightarrow>
      breakerState serverId (recordFailures serverId nows lb)
        = Some (if length nows \<ge> 5 then Open else Closed)"
    by (simp add: recordFailures_state)
  have c2: "circuitBreakers lb serverId = Some b \<and> state b = Open \<longrightarrow>
        isCircuitOpen serverId now lb
          = (if now - lastFailureTime b > 60000
             then (False, lb\<lparr>circuitBreakers := (circuitBreakers lb)
                                (serverId \<mapsto> b\<lparr>state := HalfOpen, failures := 0\<rparr>)\<rparr>)
             else (True, lb))"
    by (simp add: isCircuitOpen_def Let_def)
  have c3: "circuitBreakers lb serverId = Some b \<and> state b = HalfOpen \<longrightarrow>
        circuitBreakers (recordSuccess serverId lb) serverId
          = Some (b\<lparr>state := Closed, failures := 0\<rparr>)"
    by (simp add: recordSuccess_def circuitBreakers_emit)
  have c4: "circuitBreakers lb serverId = Some b \<and> state b = HalfOpen \<and> nows \<noteq> [] \<longrightarrow>
        breakerState serverId (recordFailures serverId nows lb)
          = Some (if failures b + length nows \<ge> 5 then Open else HalfOpen)"
  proof (intro impI, elim conjE)
    assume b: "circuitBreakers lb serverId = Some b" "state b = HalfOpen" and n: "nows \<noteq> []"
    from b(1) have "breakerOf serverId lb = b" by (simp add: breakerOf_def)
    with recordFailures_state [OF n, of serverId lb] b(2) show
      "breakerState serverId (recordFailures serverId nows lb)
          = Some (if failures b + length nows \<ge> 5 then Open else HalfOpen)" by simp
  qed
  from c1 c2 c3 c4 show ?thesis by (intro conjI)
qed

text \<open>
  The theorem along one life of the breaker of \<open>A\<close>: closed after four failures, open
  after the fifth (at 5000), still open at 65000, half-open at 70000, closed after a
  success, and from half-open still half-open after four more failures and open after
  five.
\<close>

theorem circuit_breaker_state_machine_witness:
  "breakerState ''A'' (recordFailures ''A'' [1000, 2000, 3000, 4000] (newLoadBalancer None)) = Some Closed
   \<and> breakerState ''A'' lbOpen = Some Open
   \<and> fst (isCircuitOpen ''A'' 65000 lbOpen) = True
   \<and> fst (isCircuitOpen ''A'' 70000 lbOpen) = False
   \<and> circuitBreakers lbHalfOpen ''A'' = Some \<lparr> failures = 0, lastFailureTime = 5000, state = HalfOpen \<rparr>
   \<and> circuitBreakers (recordSuccess ''A'' lbHalfOpen) ''A''
        = Some \<lparr> failures = 0, lastFailureTime = 5000, state = Closed \<rparr>
   \<and> breakerState ''A'' (recordFailures ''A'' [70001, 70002, 70003, 70004] lbHalfOpen) = Some HalfOpen
   \<and> breakerState ''A'' (recordFailures ''A'' [70001, 70002, 70003, 70004, 70005] lbHalfOpen) = Some Open"
proof -
  let ?bo = "\<lparr> failures = 5, lastFailureTime = 5000, state = Open \<rparr>"
  let ?bh = "\<lparr> failures = 0, lastFailureTime = 5000, state = HalfOpen \<rparr>"
  have h0: "state (breakerOf ''A'' (newLoadBalancer None)) = Closed
            \<and> failures (breakerOf ''A'' (newLoadBalancer None)) = 0"
    by (simp add: breakerOf_def newLoadBalancer_def)
  from circuit_breaker_state_machine
         [where lb = "newLoadBalancer None" and serverId = "''A''" and nows = "[1000, 2000, 3000, 4000]"] h0
  have r1: "breakerState ''A'' (recordFailures ''A'' [1000, 2000, 3000, 4000] (newLoadBalancer None))
              = Some Closed"
    by simp
  from circuit_breaker_state_machine
         [where lb = "newLoadBalancer None" and serverId = "''A''"
            and nows = "[1000, 2000, 3000, 4000, 5000]"] h0
  have r2: "breakerState ''A'' lbOpen = Some Open"
    by (simp add: lbOpen_def)
  have bo: "circuitBreakers lbOpen ''A'' = Some ?bo"
    by code_simp
  note t3 = circuit_breaker_state_machine [where lb = lbOpen and serverId = "''A''" and b = ?bo]
  from t3 [where now = 65000] bo have r3: "fst (isCircuitOpen ''A'' 65000 lbOpen) = True"
    by simp
  from t3 [where now = 70000] bo
  have o: "isCircuitOpen ''A'' 70000 lbOpen
             = (False, lbOpen\<lparr>circuitBreakers := (circuitBreakers lbOpen)
                                (''A'' \<mapsto> ?bo\<lparr>state := HalfOpen, failures := 0\<rparr>)\<rparr>)"
    by simp
  then have r4: "fst (isCircuitOpen ''A'' 70000 lbOpen) = False" by simp
  from o have bh: "circuitBreakers lbHalfOpen ''A'' = Some ?bh"
    by (simp add: lbHalfOpen_def)
  note t4 = circuit_breaker_state_machine [where lb = lbHalfOpen and serverId = "''A''" and b = ?bh]
  from t4 bh have r5: "circuitBreakers (recordSuccess ''A'' lbHalfOpen) ''A''
        = Some \<lparr> failures = 0, lastFailureTime = 5000, state = Closed \<rparr>"
    by simp
  from t4 [where nows = "[70001, 70002, 70003, 70004]"] bh
  have r6: "breakerState ''A'' (recordFailures ''A'' [70001, 70002, 70003, 70004] lbHalfOpen) = Some HalfOpen"
    by simp
  from t4 [where nows = "[70001, 70002, 70003, 70004, 70005]"] bh
  have r7: "breakerState ''A'' (recordFailures ''A'' [70001, 70002, 70003, 70004, 70005] lbHalfOpen) = Some Open"
    by simp
  from r1 r2 r3 r4 bh r5 r6 r7 show ?thesis by simp
qed


end
